theory Spec2Isabelle
  imports Main "HOL-Library.AList"
begin

section \<open>Data model of \<open>batchkit/orchestrator.py\<close>\<close>

text \<open>
  The orchestrator is a Python object whose methods run under one reentrant lock
  (\<open>_accounting_lock\<close>). Each method body is embedded as a function from the state before
  the lock is taken to an outcome and the state at the point where the method returns,
  raises, or suspends. Python dictionaries keep insertion order, and the order in which
  \<open>hotswap_endpoint_managers\<close> walks \<open>_in_progress\<close> decides the order of the work queue, so
  dictionaries are association lists: \<open>d[k] = v\<close> is \<open>AList.update\<close> (overwrite in place,
  else append), \<open>del d[k]\<close> is \<open>AList.delete\<close> guarded by the \<open>KeyError\<close> of a missing key.
\<close>

datatype exn =
    KeyError
  | AttributeError
  | AssertionError
  | BatchNotFoundException
  | InvalidConfigurationError
  | OSError int
  | OtherException string
  | NonException string

text \<open>
  \<open>OtherException\<close> stands for any further subclass of Python's \<open>Exception\<close>,
  \<open>NonException\<close> for a \<open>BaseException\<close> outside \<open>Exception\<close> (such as
  \<open>KeyboardInterrupt\<close>), which \<open>except Exception\<close> does not catch.
\<close>

fun is_Exception :: "exn \<Rightarrow> bool" where
  "is_Exception (NonException _) = False"
| "is_Exception _ = True"

text \<open>
  What a call does from a given state: it returns a value, raises, or does not return
  from this state (\<open>Queue.get()\<close> on an empty queue, \<open>Condition.wait()\<close>).
\<close>

datatype 'a outcome = Returns 'a | Raises exn | Blocks

text \<open>
  Modelled from the spec: \<open>WorkItemRequest\<close> (module \<open>work_item\<close>, not part of the source
  at hand) has a \<open>filepath\<close> and an optional \<open>language\<close> tag; the other fields are
  consumed by workers only.
\<close>

record WorkItemRequest =
  filepath :: string
  language :: "string option"

text \<open>
  Modelled from the spec: \<open>WorkItemResult\<close> (module \<open>work_item\<close>) has \<open>attempts\<close> and
  \<open>can_retry\<close>. An instance is an ordinary Python object, hence truthy: in
  \<open>_merge_results\<close> only the \<open>None\<close> placeholder makes \<open>not self._work_results[filepath]\<close>
  true.
\<close>

record WorkItemResult =
  attempts :: int
  can_retry :: bool

datatype processor_type = StubWorkItemProcessor | ProcessorOf string

datatype status_checker = UnknownEndpointStatusChecker | CheckerOf string

text \<open>
  The type of the batch request being processed, \<open>type(request)\<close>: \<open>NoneType\<close> before
  the first batch and at the stop sentinel, else a \<open>BatchRequest\<close> subtype, which carries
  the factories \<open>get_work_item_processor\<close> and \<open>get_endpoint_status_checker\<close>.
\<close>

datatype batch_type = NoneType | BatchType string processor_type status_checker

text \<open>
  Modelled from the spec: the \<open>EndpointManager\<close> handle (module \<open>endpoint_manager\<close>).
  \<open>work_item_processor\<close> holds the type of the processor, the only thing the orchestrator
  compares; \<open>em_stop_requested\<close> is the manager's own \<open>_stop_requested\<close> flag.
\<close>

record EndpointManager =
  name :: string
  endpoint_name :: string
  endpoint_config :: "(string \<times> string) list"
  work_item_processor :: processor_type
  em_stop_requested :: bool
  started :: bool
  em_status_checker :: status_checker

datatype cond_event = Notify | NotifyAll

record BatchRequest =
  batch_id :: int
  request_type :: batch_type
  combine_results :: bool

text \<open>
  The fields of \<open>Orchestrator\<close> that its methods read and write, named as in
  \<open>__init__\<close> without the leading underscores. \<open>file_queue_cond\<close> records the
  notifications sent on the condition variable, oldest first. \<open>in_progress_owner\<close>
  holds the manager as it was handed to \<open>steal_work\<close>; the orchestrator reads only its
  immutable \<open>endpoint_name\<close> through this dictionary.
\<close>

record Orchestrator =
  submission_que :: "BatchRequest option list"
  singleton_run_summary_path :: "string option"
  on_batch_id :: int
  on_batch_type :: batch_type
  run_summary_thread_gate :: bool
  file_queue :: "WorkItemRequest list"
  file_queue_size :: int
  in_progress :: "(string \<times> WorkItemRequest) list"
  in_progress_owner :: "(string \<times> EndpointManager) list"
  work_results :: "(string \<times> WorkItemResult option) list"
  batch_completion_evt :: bool
  file_queue_cond :: "cond_event list"
  summarizer :: bool
  stop_requested :: bool
  endpoint_managers :: "EndpointManager list"
  endpoint_generation :: int
  old_managers :: "string set"
  config_notifier :: bool
  creator_pid :: int
  cnt_work_success_cb :: int
  cnt_work_failure_cb :: int

text \<open>The state \<open>__init__\<close> builds, before the first batch.\<close>

definition init :: "BatchRequest option list \<Rightarrow> string option \<Rightarrow> int \<Rightarrow> Orchestrator" where
  "init que path pid =
     \<lparr> submission_que = que, singleton_run_summary_path = path,
       on_batch_id = - 1, on_batch_type = NoneType,
       run_summary_thread_gate = False,
       file_queue = [], file_queue_size = 0,
       in_progress = [], in_progress_owner = [], work_results = [],
       batch_completion_evt = False, file_queue_cond = [],
       summarizer = False, stop_requested = False,
       endpoint_managers = [], endpoint_generation = 0, old_managers = {},
       config_notifier = True, creator_pid = pid,
       cnt_work_success_cb = 0, cnt_work_failure_cb = 0 \<rparr>"

section \<open>Python helpers\<close>

definition keys :: "('k \<times> 'v) list \<Rightarrow> 'k set" where
  "keys d = fst ` set d"

text \<open>Truthiness of an optional string: \<open>None\<close> and \<open>""\<close> are falsy.\<close>

fun truthy :: "string option \<Rightarrow> bool" where
  "truthy None = False"
| "truthy (Some s) = (s \<noteq> [])"

text \<open>\<open>str.lower()\<close> on ASCII text, which is what language tags such as \<open>en-US\<close> are.\<close>

definition lower_char :: "char \<Rightarrow> char" where
  "lower_char c =
     (case map_of (zip ''ABCDEFGHIJKLMNOPQRSTUVWXYZ'' ''abcdefghijklmnopqrstuvwxyz'') c of
        Some d \<Rightarrow> d
      | None \<Rightarrow> c)"

definition lower :: "string \<Rightarrow> string" where
  "lower s = map lower_char s"

text \<open>\<open>str(n)\<close> for an integer, used in the generation-tagged manager names.\<close>

definition digit_char :: "nat \<Rightarrow> char" where
  "digit_char d = char_of (48 + d)"

function str_nat :: "nat \<Rightarrow> string" where
  "str_nat n = (if n < 10 then [digit_char n] else str_nat (n div 10) @ [digit_char (n mod 10)])"
  by pat_completeness auto
termination
  by (relation "measure id") auto

declare str_nat.simps [simp del]

definition str_int :: "int \<Rightarrow> string" where
  "str_int i = (if i < 0 then CHR ''-'' # str_nat (nat (- i)) else str_nat (nat i))"

text \<open>
  The loop \<open>while self._file_queue_size > 0: self._file_queue.get(); self._file_queue_size -= 1\<close>
  of \<open>request_stop\<close> and \<open>cancel_running_batch\<close>. \<open>get()\<close> on an empty queue does not
  return: the first component says whether the loop was left, the others are the queue
  and the counter where it was left or got stuck.
\<close>

function drain :: "WorkItemRequest list \<Rightarrow> int \<Rightarrow> bool \<times> WorkItemRequest list \<times> int" where
  "drain q n =
     (if n > 0 then (case q of [] \<Rightarrow> (False, [], n) | w # rest \<Rightarrow> drain rest (n - 1))
      else (True, q, n))"
  by pat_completeness auto
termination
  by (relation "measure (\<lambda>(q, n). nat n)") auto

declare drain.simps [simp del]

text \<open>Python's \<open>==\<close> on two dictionaries: the same keys with equal values.\<close>

definition dict_eq :: "('k \<times> 'v) list \<Rightarrow> ('k \<times> 'v) list \<Rightarrow> bool" where
  "dict_eq a b = (keys a = keys b \<and> (\<forall>k \<in> keys a. map_of a k = map_of b k))"

definition EBADF :: int where
  "EBADF = 9"

section \<open>Outcome notification\<close>

text \<open>\<open>_merge_results\<close>: the result that ends up stored, and the store.\<close>

definition merged_result :: "string \<Rightarrow> WorkItemResult \<Rightarrow> Orchestrator \<Rightarrow> WorkItemResult" where
  "merged_result fp result st =
     (case map_of (work_results st) fp of
        None \<Rightarrow> result
      | Some None \<Rightarrow> result
      | Some (Some prev) \<Rightarrow> result\<lparr>attempts := attempts result + attempts prev\<rparr>)"

definition merge_results :: "string \<Rightarrow> WorkItemResult \<Rightarrow> Orchestrator \<Rightarrow> Orchestrator" where
  "merge_results fp result st =
     st\<lparr>work_results := AList.update fp (Some (merged_result fp result st)) (work_results st)\<rparr>"

text \<open>The closing test of both callbacks: did we just finish the batch?\<close>

definition check_completion :: "Orchestrator \<Rightarrow> Orchestrator" where
  "check_completion st =
     (if file_queue_size st = 0 \<and> length (in_progress st) = 0
      then st\<lparr>batch_completion_evt := True\<rparr> else st)"

definition notify_work_success ::
  "string \<Rightarrow> EndpointManager \<Rightarrow> WorkItemResult \<Rightarrow> Orchestrator \<Rightarrow> unit outcome \<times> Orchestrator" where
  "notify_work_success fp manager result st0 =
     (let st = st0\<lparr>cnt_work_success_cb := cnt_work_success_cb st0 + 1\<rparr> in
      if name manager \<in> old_managers st then (Returns (), st)
      else if stop_requested st then (Returns (), st)
      else if fp \<notin> keys (in_progress st) then (Raises KeyError, st)
      else
        let st1 = st\<lparr>in_progress := AList.delete fp (in_progress st)\<rparr> in
        if fp \<notin> keys (in_progress_owner st1) then (Raises KeyError, st1)
        else
          let st2 = st1\<lparr>in_progress_owner := AList.delete fp (in_progress_owner st1)\<rparr>;
              st3 = merge_results fp result st2
          in (Returns (), check_completion st3))"

text \<open>
  \<open>ORCHESTRATOR_SCOPE_MAX_RETRIES\<close> comes from the module \<open>constants\<close>; it is the
  first argument \<open>max_retries\<close>.
\<close>

definition notify_work_failure ::
  "int \<Rightarrow> string \<Rightarrow> EndpointManager \<Rightarrow> WorkItemResult \<Rightarrow> Orchestrator \<Rightarrow> unit outcome \<times> Orchestrator" where
  "notify_work_failure max_retries fp manager result st0 =
     (let st = st0\<lparr>cnt_work_failure_cb := cnt_work_failure_cb st0 + 1\<rparr> in
      if name manager \<in> old_managers st then (Returns (), st)
      else if stop_requested st then (Returns (), st)
      else
        let st1 = merge_results fp result st in
        (case map_of (work_results st1) fp of
           None \<Rightarrow> (Raises KeyError, st1)
         | Some None \<Rightarrow> (Raises AttributeError, st1)
         | Some (Some stored) \<Rightarrow>
             if can_retry stored \<and> attempts stored - 1 < max_retries then
               (case map_of (in_progress st1) fp of
                  None \<Rightarrow> (Raises KeyError, st1)
                | Some work \<Rightarrow>
                    let st2 = st1\<lparr>file_queue := file_queue st1 @ [work],
                                  file_queue_size := file_queue_size st1 + 1,
                                  file_queue_cond := file_queue_cond st1 @ [Notify]\<rparr>;
                        st3 = st2\<lparr>in_progress := AList.delete fp (in_progress st2)\<rparr>
                    in if fp \<notin> keys (in_progress_owner st3) then (Raises KeyError, st3)
                       else (Returns (),
                             check_completion
                               (st3\<lparr>in_progress_owner := AList.delete fp (in_progress_owner st3)\<rparr>)))
             else if fp \<notin> keys (in_progress st1) then (Raises KeyError, st1)
             else
               let st3 = st1\<lparr>in_progress := AList.delete fp (in_progress st1)\<rparr>
               in if fp \<notin> keys (in_progress_owner st3) then (Raises KeyError, st3)
                  else (Returns (),
                        check_completion
                          (st3\<lparr>in_progress_owner := AList.delete fp (in_progress_owner st3)\<rparr>))))"

section \<open>Stealing work\<close>

datatype steal_result = Work WorkItemRequest | Sentinel

text \<open>
  \<open>steal_work\<close>, from taking the lock to the first point where the loop is left or the
  caller is suspended. After \<open>Condition.wait()\<close> the loop starts again from whatever state
  the other threads have produced, which is a new call of this function.
\<close>

definition steal_work :: "EndpointManager \<Rightarrow> Orchestrator \<Rightarrow> steal_result outcome \<times> Orchestrator" where
  "steal_work manager st =
     (if name manager \<in> old_managers st \<or> stop_requested st then (Returns Sentinel, st)
      else if file_queue_size st > 0 then
        (case file_queue st of
           [] \<Rightarrow> (Blocks, st)
         | work # rest \<Rightarrow>
             let st1 = st\<lparr>file_queue := rest, file_queue_size := file_queue_size st - 1\<rparr>;
                 got = st1\<lparr>in_progress := AList.update (filepath work) work (in_progress st1),
                           in_progress_owner :=
                             AList.update (filepath work) manager (in_progress_owner st1)\<rparr>
             in (case language work of
                   None \<Rightarrow> (Returns (Work work), got)
                 | Some wl \<Rightarrow>
                     if wl = [] then (Returns (Work work), got)
                     else
                       (case map_of (endpoint_config manager) ''language'' of
                          None \<Rightarrow> (Raises KeyError, st1)
                        | Some l \<Rightarrow>
                            if lower l \<noteq> lower wl then
                              (Returns Sentinel,
                               st1\<lparr>file_queue := file_queue st1 @ [work],
                                   file_queue_size := file_queue_size st1 + 1,
                                   file_queue_cond := file_queue_cond st1 @ [Notify]\<rparr>)
                            else (Returns (Work work), got))))
      else (Blocks, st))"

section \<open>Cancellation and stop\<close>

text \<open>
  Modelled from the spec: \<open>EndpointManager.request_stop\<close> (module \<open>endpoint_manager\<close>)
  raises the manager's \<open>stop_requested\<close> flag.
\<close>

definition em_request_stop :: "EndpointManager \<Rightarrow> EndpointManager" where
  "em_request_stop m = m\<lparr>em_stop_requested := True\<rparr>"

text \<open>
  \<open>request_stop\<close>. \<open>pid\<close> is \<open>current_process().pid\<close>; \<open>notifier_stop\<close> is what
  \<open>ThreadedNotifier.stop()\<close> raises when it is called (\<open>None\<close> when it returns).
\<close>

definition stop_notifier :: "exn option \<Rightarrow> Orchestrator \<Rightarrow> exn + Orchestrator" where
  "stop_notifier notifier_stop st =
     (if config_notifier st then
        (case notifier_stop of
           None \<Rightarrow> Inr (st\<lparr>config_notifier := False\<rparr>)
         | Some (OSError errno) \<Rightarrow> if errno \<noteq> EBADF then Inl (OSError errno) else Inr st
         | Some e \<Rightarrow> Inl e)
      else Inr st)"

definition request_stop :: "int \<Rightarrow> exn option \<Rightarrow> Orchestrator \<Rightarrow> unit outcome \<times> Orchestrator" where
  "request_stop pid notifier_stop st =
     (if pid \<noteq> creator_pid st then (Returns (), st)
      else
        (case stop_notifier notifier_stop st of
           Inl e \<Rightarrow> (Raises e, st)
         | Inr st1 \<Rightarrow>
             let st2 = st1\<lparr>stop_requested := True\<rparr> in
             (case drain (file_queue st2) (file_queue_size st2) of
                (False, q, n) \<Rightarrow> (Blocks, st2\<lparr>file_queue := q, file_queue_size := n\<rparr>)
              | (True, q, n) \<Rightarrow>
                  (Returns (),
                   st2\<lparr>file_queue := q, file_queue_size := n,
                       submission_que := submission_que st2 @ [None],
                       file_queue_cond := file_queue_cond st2 @ [NotifyAll],
                       batch_completion_evt := True,
                       endpoint_managers := map em_request_stop (endpoint_managers st2),
                       run_summary_thread_gate := True\<rparr>))))"

definition cancel_running_batch :: "int \<Rightarrow> Orchestrator \<Rightarrow> bool outcome \<times> Orchestrator" where
  "cancel_running_batch bid st =
     (if on_batch_id st \<noteq> bid then (Returns False, st)
      else
        (case drain (file_queue st) (file_queue_size st) of
           (False, q, n) \<Rightarrow> (Blocks, st\<lparr>file_queue := q, file_queue_size := n\<rparr>)
         | (True, q, n) \<Rightarrow>
             (Returns True,
              st\<lparr>file_queue := q, file_queue_size := n,
                 file_queue_cond := file_queue_cond st @ [NotifyAll],
                 in_progress := [], in_progress_owner := [],
                 endpoint_managers := map em_request_stop (endpoint_managers st),
                 old_managers := old_managers st \<union> name ` set (endpoint_managers st),
                 batch_completion_evt := True\<rparr>)))"

section \<open>Hot swap of the endpoint managers\<close>

text \<open>
  Modelled from the spec: the constructor of \<open>EndpointManager\<close> (module
  \<open>endpoint_manager\<close>) as \<open>hotswap_endpoint_managers\<close> calls it, with the generation-tagged
  name \<open>HotswapGen{gen}_{endpoint_name}\<close>; a new manager is neither started nor stopped.
\<close>

definition new_manager ::
  "int \<Rightarrow> string \<Rightarrow> (string \<times> string) list \<Rightarrow> status_checker \<Rightarrow> processor_type \<Rightarrow> EndpointManager" where
  "new_manager gen en ec chk wip =
     \<lparr> name = ''HotswapGen'' @ str_int gen @ ''_'' @ en, endpoint_name = en,
       endpoint_config = ec, work_item_processor = wip, em_stop_requested = False,
       started = False, em_status_checker = chk \<rparr>"

text \<open>\<open>{em.endpoint_name: em for em in self._endpoint_managers}\<close>\<close>

definition by_endpoint_name :: "EndpointManager list \<Rightarrow> (string \<times> EndpointManager) list" where
  "by_endpoint_name ms = foldl (\<lambda>d em. AList.update (endpoint_name em) em d) [] ms"

text \<open>
  The loop over \<open>config_data.items()\<close> inside the \<open>try\<close>. \<open>ctor_ok\<close> says for which
  endpoints the constructor of \<open>EndpointManager\<close> returns; where it raises, the
  \<open>except Exception\<close> clause makes the method return, which is the result \<open>None\<close>.
  Otherwise the result is \<open>deleted_managers\<close> and \<open>new_em_objs\<close>.
\<close>

fun diff_config ::
  "(string \<Rightarrow> (string \<times> string) list \<Rightarrow> bool) \<Rightarrow> int \<Rightarrow> status_checker \<Rightarrow> processor_type \<Rightarrow>
   (string \<times> (string \<times> string) list) list \<Rightarrow>
   (string \<times> EndpointManager) list \<Rightarrow> EndpointManager list \<Rightarrow>
   ((string \<times> EndpointManager) list \<times> EndpointManager list) option" where
  "diff_config ctor_ok gen chk wip [] deleted_managers new_em_objs =
     Some (deleted_managers, new_em_objs)"
| "diff_config ctor_ok gen chk wip ((en, ec) # rest) deleted_managers new_em_objs =
     (let create =
            (if ctor_ok en ec
             then diff_config ctor_ok gen chk wip rest deleted_managers
                    (new_em_objs @ [new_manager gen en ec chk wip])
             else None)
      in case map_of deleted_managers en of
           None \<Rightarrow> create
         | Some em \<Rightarrow>
             if dict_eq ec (endpoint_config em) \<and> work_item_processor em = wip
                \<and> \<not> em_stop_requested em
             then diff_config ctor_ok gen chk wip rest (AList.delete en deleted_managers) new_em_objs
             else create)"

text \<open>
  The loop that un-assigns the work in progress of deleted managers. It walks
  \<open>self._in_progress.items()\<close> and changes the two shallow copies, the queue and its
  counter. The first component is the exception that ends the loop early, if any.
\<close>

fun unassign ::
  "string set \<Rightarrow> (string \<times> EndpointManager) list \<Rightarrow> (string \<times> WorkItemRequest) list \<Rightarrow>
   (string \<times> WorkItemRequest) list \<times> (string \<times> EndpointManager) list \<times> WorkItemRequest list \<times> int \<Rightarrow>
   exn option \<times>
   (string \<times> WorkItemRequest) list \<times> (string \<times> EndpointManager) list \<times> WorkItemRequest list \<times> int" where
  "unassign deleted owners [] acc = (None, acc)"
| "unassign deleted owners ((fp, work_item) # items) (wip, wipo, q, n) =
     (case map_of owners fp of
        None \<Rightarrow> (Some KeyError, (wip, wipo, q, n))
      | Some owner \<Rightarrow>
          if endpoint_name owner \<in> deleted then
            (if fp \<notin> keys wip then (Some KeyError, (wip, wipo, q, n))
             else if fp \<notin> keys wipo then (Some KeyError, (AList.delete fp wip, wipo, q, n))
             else unassign deleted owners items
                    (AList.delete fp wip, AList.delete fp wipo, q @ [work_item], n + 1))
          else unassign deleted owners items (wip, wipo, q, n))"

text \<open>
  The \<open>EndpointStatusChecker\<close> and the type of the \<open>WorkItemProcessor\<close> for the batch
  being processed: the stubs when \<open>isinstance(None, self._on_batch_type)\<close>.
\<close>

fun batch_tools :: "batch_type \<Rightarrow> status_checker \<times> processor_type" where
  "batch_tools NoneType = (UnknownEndpointStatusChecker, StubWorkItemProcessor)"
| "batch_tools (BatchType _ p c) = (c, p)"

text \<open>
  The \<open>try\<close> block as a whole, from the state in which the method was entered:
  \<open>deleted_managers\<close> and \<open>new_em_objs\<close>, or \<open>None\<close> when the block raised.
\<close>

definition hotswap_plan ::
  "(string \<Rightarrow> (string \<times> string) list \<Rightarrow> bool) \<Rightarrow> (string \<times> (string \<times> string) list) list \<Rightarrow>
   Orchestrator \<Rightarrow> ((string \<times> EndpointManager) list \<times> EndpointManager list) option" where
  "hotswap_plan ctor_ok config_data st =
     diff_config ctor_ok (endpoint_generation st)
       (fst (batch_tools (on_batch_type st))) (snd (batch_tools (on_batch_type st)))
       config_data (by_endpoint_name (endpoint_managers st)) []"

text \<open>
  \<open>hotswap_endpoint_managers\<close>. \<open>loaded\<close> is what \<open>load_configuration\<close> does: it raises
  (\<open>Inl\<close>) or returns the configuration, a dictionary from endpoint names to endpoint
  configurations.
\<close>

definition hotswap_endpoint_managers ::
  "exn + (string \<times> (string \<times> string) list) list \<Rightarrow> (string \<Rightarrow> (string \<times> string) list \<Rightarrow> bool) \<Rightarrow>
   Orchestrator \<Rightarrow> unit outcome \<times> Orchestrator" where
  "hotswap_endpoint_managers loaded ctor_ok st =
     (case loaded of
        Inl InvalidConfigurationError \<Rightarrow> (Returns (), st)
      | Inl e \<Rightarrow> (Raises e, st)
      | Inr config_data \<Rightarrow>
          if stop_requested st then (Returns (), st)
          else
            let st1 = st\<lparr>endpoint_generation := endpoint_generation st + 1\<rparr>;
                chk = fst (batch_tools (on_batch_type st1))
            in (case hotswap_plan ctor_ok config_data st of
                  None \<Rightarrow> (Returns (), st1)
                | Some (deleted_managers, new_em_objs) \<Rightarrow>
                    if stop_requested st1 then (Returns (), st1)
                    else
                      let deleted = keys deleted_managers;
                          st2 = st1\<lparr>old_managers :=
                                     old_managers st1 \<union>
                                     name ` {m \<in> set (endpoint_managers st1). endpoint_name m \<in> deleted},
                                   endpoint_managers :=
                                     map (\<lambda>m. if endpoint_name m \<in> deleted then em_request_stop m else m)
                                       (endpoint_managers st1)\<rparr>
                      in (case unassign deleted (in_progress_owner st2) (in_progress st2)
                                (in_progress st2, in_progress_owner st2,
                                 file_queue st2, file_queue_size st2) of
                            (Some e, (wip', wipo', q, n)) \<Rightarrow>
                              (Raises e, st2\<lparr>file_queue := q, file_queue_size := n\<rparr>)
                          | (None, (wip', wipo', q, n)) \<Rightarrow>
                              (Returns (),
                               st2\<lparr>file_queue := q, file_queue_size := n,
                                   in_progress := wip', in_progress_owner := wipo',
                                   file_queue_cond := file_queue_cond st2 @ [NotifyAll],
                                   endpoint_managers :=
                                     map (\<lambda>m. m\<lparr>em_status_checker := chk\<rparr>)
                                       ([em \<leftarrow> endpoint_managers st2. endpoint_name em \<notin> deleted] @
                                        map (\<lambda>m. m\<lparr>started := True\<rparr>) new_em_objs)\<rparr>))))"

section \<open>The master loop\<close>

text \<open>
  The head of the loop: \<open>request = self._submission_que.get()\<close> and the recording of
  \<open>type(request)\<close>.
\<close>

definition master_get :: "Orchestrator \<Rightarrow> BatchRequest option outcome \<times> Orchestrator" where
  "master_get st =
     (case submission_que st of
        [] \<Rightarrow> (Blocks, st)
      | request # rest \<Rightarrow>
          (Returns request,
           st\<lparr>submission_que := rest,
              on_batch_type := (case request of None \<Rightarrow> NoneType | Some r \<Rightarrow> request_type r)\<rparr>))"

text \<open>
  The block that starts a batch (\<open>with self._accounting_lock\<close> after the hot swap).
  \<open>items\<close> is what \<open>request.make_work_items(...)\<close> yields. The result is \<open>False\<close> when
  a stop was requested and the master thread finalizes and returns.
\<close>

definition enqueue_item :: "Orchestrator \<Rightarrow> WorkItemRequest \<Rightarrow> Orchestrator" where
  "enqueue_item st work =
     st\<lparr>file_queue := file_queue st @ [work],
        file_queue_size := file_queue_size st + 1,
        work_results := AList.update (filepath work) None (work_results st)\<rparr>"

definition start_batch :: "BatchRequest \<Rightarrow> WorkItemRequest list \<Rightarrow> Orchestrator \<Rightarrow> bool outcome \<times> Orchestrator" where
  "start_batch request items st =
     (if stop_requested st then (Returns False, st)
      else
        let st1 = st\<lparr>work_results :=
                        (if singleton_run_summary_path st = None then [] else work_results st),
                      summarizer := True,
                      on_batch_id := batch_id request,
                      batch_completion_evt := False,
                      run_summary_thread_gate := True\<rparr>
        in if length (in_progress st1) \<noteq> 0 then (Raises AssertionError, st1)
           else if file_queue_size st1 \<noteq> 0 then (Raises AssertionError, st1)
           else
             let st2 = foldl enqueue_item st1 items
             in (Returns True, st2\<lparr>file_queue_cond := file_queue_cond st2 @ [NotifyAll]\<rparr>))"

section \<open>Writing the run summary\<close>

datatype log_event = Warning_failed_to_write_run_summary | Error_in_run_summary_loop

text \<open>
  \<open>write_summary_information\<close>, with its four parameters in the order of the source.
  \<open>write_res\<close> is what the write (\<open>write_json_file_atomic\<close> on the singleton path, else
  \<open>set_run_summary\<close> of the status provider) raises, \<open>None\<close> when it returns. The method
  leaves the orchestrator's state as it is; the result is its outcome and what it logs.
  The snapshot and the summarizer's \<open>run_summary\<close>, which stand before the \<open>try\<close>, are
  taken to return.
\<close>

definition write_summary_information ::
  "bool \<Rightarrow> int \<Rightarrow> bool \<Rightarrow> bool \<Rightarrow> exn option \<Rightarrow> Orchestrator \<Rightarrow> unit outcome \<times> log_event list" where
  "write_summary_information write_run_summary write_retries log_conclusion_msg allow_fail
     write_res st =
     (if write_run_summary then
        (case write_res of
           None \<Rightarrow> (Returns (), [])
         | Some e \<Rightarrow>
             if \<not> truthy (singleton_run_summary_path st) \<and> e = BatchNotFoundException
             then (Returns (), [])
             else if is_Exception e then
               (if \<not> allow_fail then (Raises e, [Warning_failed_to_write_run_summary])
                else (Returns (), [Warning_failed_to_write_run_summary]))
             else (Raises e, []))
      else (Returns (), []))"

text \<open>The per-batch final write of \<open>_master_thread_loop\<close>, after the batch completion event.\<close>

definition master_final_summary :: "exn option \<Rightarrow> Orchestrator \<Rightarrow> unit outcome \<times> log_event list" where
  "master_final_summary write_res st =
     (if singleton_run_summary_path st = None
      then write_summary_information True 10 True True write_res st
      else write_summary_information True 10 False True write_res st)"

text \<open>
  One round of \<open>_run_summary_loop\<close> past the gate: the write with the default
  \<open>allow_fail=False\<close>, inside \<open>try ... except Exception\<close>.
\<close>

definition run_summary_round :: "exn option \<Rightarrow> Orchestrator \<Rightarrow> unit outcome \<times> log_event list" where
  "run_summary_round write_res st =
     (if stop_requested st then (Returns (), [])
      else if on_batch_id st > - 1 \<and> summarizer st then
        (case write_summary_information True 5 False False write_res st of
           (Raises e, lg) \<Rightarrow>
             if is_Exception e then (Returns (), lg @ [Error_in_run_summary_loop])
             else (Raises e, lg)
         | r \<Rightarrow> r)
      else (Returns (), []))"

section \<open>Accounting invariants and reachable states\<close>

text \<open>
  The invariants of the data model: the counter equals the size of the queue, the two
  in-progress dictionaries have the same keys, every in-progress entry is filed under its
  own filepath, no filepath is queued twice, none is both queued and in progress, and the
  completion event is set only when a stop was requested or nothing is queued or in
  progress.
\<close>

definition accounting_inv :: "Orchestrator \<Rightarrow> bool" where
  "accounting_inv st =
     (file_queue_size st = int (length (file_queue st)) \<and>
      keys (in_progress st) = keys (in_progress_owner st) \<and>
      distinct (map fst (in_progress st)) \<and>
      (\<forall>(k, w) \<in> set (in_progress st). filepath w = k) \<and>
      distinct (map filepath (file_queue st)) \<and>
      filepath ` set (file_queue st) \<inter> keys (in_progress st) = {} \<and>
      (batch_completion_evt st \<longrightarrow>
         stop_requested st \<or> (file_queue_size st = 0 \<and> in_progress st = [])))"

text \<open>The attempts recorded for a filepath; nothing recorded counts as none made.\<close>

definition recorded_attempts :: "Orchestrator \<Rightarrow> string \<Rightarrow> int" where
  "recorded_attempts st fp =
     (case map_of (work_results st) fp of Some (Some r) \<Rightarrow> attempts r | _ \<Rightarrow> 0)"

definition retry_inv :: "int \<Rightarrow> Orchestrator \<Rightarrow> bool" where
  "retry_inv max_retries st =
     ((\<forall>w \<in> set (file_queue st). recorded_attempts st (filepath w) \<le> max_retries) \<and>
      (\<forall>k \<in> keys (in_progress st). recorded_attempts st k \<le> max_retries) \<and>
      (\<forall>fp. recorded_attempts st fp \<le> max_retries + 1))"

text \<open>
  The states the orchestrator can be in: the state \<open>__init__\<close> builds, and the state after
  any of its methods, called with any arguments in any order, with these provisos on the
  callers. A batch has no two work items with the same filepath. A manager that is
  neither retired nor stopped reports a filepath that is in progress, with a result
  whose \<open>attempts\<close> is 1.
\<close>

inductive reachable :: "int \<Rightarrow> Orchestrator \<Rightarrow> bool" for max_retries :: int where
  reach_init: "reachable max_retries (init que path pid)"
| reach_master_get:
    "reachable max_retries st \<Longrightarrow> master_get st = (out, st') \<Longrightarrow> reachable max_retries st'"
| reach_start_batch:
    "reachable max_retries st \<Longrightarrow> distinct (map filepath items) \<Longrightarrow>
     start_batch request items st = (out, st') \<Longrightarrow> reachable max_retries st'"
| reach_steal_work:
    "reachable max_retries st \<Longrightarrow> steal_work manager st = (out, st') \<Longrightarrow>
     reachable max_retries st'"
| reach_notify_work_success:
    "reachable max_retries st \<Longrightarrow>
     name manager \<in> old_managers st \<or> stop_requested st \<or>
       (fp \<in> keys (in_progress st) \<and> attempts result = 1) \<Longrightarrow>
     notify_work_success fp manager result st = (out, st') \<Longrightarrow> reachable max_retries st'"
| reach_notify_work_failure:
    "reachable max_retries st \<Longrightarrow>
     name manager \<in> old_managers st \<or> stop_requested st \<or>
       (fp \<in> keys (in_progress st) \<and> attempts result = 1) \<Longrightarrow>
     notify_work_failure max_retries fp manager result st = (out, st') \<Longrightarrow>
     reachable max_retries st'"
| reach_hotswap:
    "reachable max_retries st \<Longrightarrow> hotswap_endpoint_managers loaded ctor_ok st = (out, st') \<Longrightarrow>
     reachable max_retries st'"
| reach_cancel:
    "reachable max_retries st \<Longrightarrow> cancel_running_batch bid st = (out, st') \<Longrightarrow>
     reachable max_retries st'"
| reach_request_stop:
    "reachable max_retries st \<Longrightarrow> request_stop pid notifier_stop st = (out, st') \<Longrightarrow>
     reachable max_retries st'"

section \<open>States used as examples\<close>

definition item_a :: WorkItemRequest where
  "item_a = \<lparr>filepath = ''a.wav'', language = Some ''en-US''\<rparr>"

definition item_b :: WorkItemRequest where
  "item_b = \<lparr>filepath = ''b.wav'', language = None\<rparr>"

definition manager_E1 :: EndpointManager where
  "manager_E1 =
     \<lparr>name = ''HotswapGen0_E1'', endpoint_name = ''E1'',
      endpoint_config = [(''language'', ''en-us'')],
      work_item_processor = StubWorkItemProcessor, em_stop_requested = False,
      started = True, em_status_checker = UnknownEndpointStatusChecker\<rparr>"

text \<open>
  A batch under way: \<open>a.wav\<close> was tried once, failed, and is in progress again at the
  manager of endpoint \<open>E1\<close>; \<open>b.wav\<close> is still queued.
\<close>

definition running_state :: Orchestrator where
  "running_state =
     (init [] None 1)
       \<lparr>on_batch_id := 7, file_queue := [item_b], file_queue_size := 1,
        in_progress := [(''a.wav'', item_a)], in_progress_owner := [(''a.wav'', manager_E1)],
        work_results := [(''a.wav'', Some \<lparr>attempts = 1, can_retry = True\<rparr>), (''b.wav'', None)],
        endpoint_managers := [manager_E1], endpoint_generation := 1\<rparr>"

definition manager_fr :: EndpointManager where
  "manager_fr =
     \<lparr>name = ''HotswapGen0_E2'', endpoint_name = ''E2'',
      endpoint_config = [(''language'', ''fr-FR'')],
      work_item_processor = StubWorkItemProcessor, em_stop_requested = False,
      started = True, em_status_checker = UnknownEndpointStatusChecker\<rparr>"

definition manager_nolang :: EndpointManager where
  "manager_nolang =
     \<lparr>name = ''HotswapGen0_E3'', endpoint_name = ''E3'',
      endpoint_config = [(''host'', ''localhost'')],
      work_item_processor = StubWorkItemProcessor, em_stop_requested = False,
      started = True, em_status_checker = UnknownEndpointStatusChecker\<rparr>"

text \<open>A batch of two work items that has just been started; three managers are running.\<close>

definition queued_state :: Orchestrator where
  "queued_state =
     (init [] None 1)
       \<lparr>on_batch_id := 7, run_summary_thread_gate := True,
        file_queue := [item_a, item_b], file_queue_size := 2,
        work_results := [(''a.wav'', None), (''b.wav'', None)],
        file_queue_cond := [NotifyAll], summarizer := True,
        endpoint_managers := [manager_E1, manager_fr, manager_nolang], endpoint_generation := 1\<rparr>"

text \<open>The running batch after the creator process has asked for a stop.\<close>

definition stopped_state :: Orchestrator where
  "stopped_state =
     running_state
       \<lparr>submission_que := [None], run_summary_thread_gate := True,
        file_queue := [], file_queue_size := 0,
        batch_completion_evt := True, file_queue_cond := [NotifyAll],
        stop_requested := True,
        endpoint_managers := [manager_E1\<lparr>em_stop_requested := True\<rparr>],
        config_notifier := False\<rparr>"

text \<open>
  Whether the manager recorded as the owner of a filepath belongs to an endpoint that a
  hot swap deletes.
\<close>

definition owner_deleted :: "string set \<Rightarrow> (string \<times> EndpointManager) list \<Rightarrow> string \<Rightarrow> bool" where
  "owner_deleted deleted owners fp =
     (case map_of owners fp of Some owner \<Rightarrow> endpoint_name owner \<in> deleted | None \<Rightarrow> False)"

text \<open>
  A run with one work item and a retry budget of 1: the batch is started, the item is
  stolen and fails, is stolen again and fails again.
\<close>

definition batch_7 :: BatchRequest where
  "batch_7 = \<lparr>batch_id = 7, request_type = NoneType, combine_results = False\<rparr>"

definition after_first_failure :: Orchestrator where
  "after_first_failure =
     snd (notify_work_failure 1 ''b.wav'' manager_E1 \<lparr>attempts = 1, can_retry = True\<rparr>
       (snd (steal_work manager_E1
         (snd (start_batch batch_7 [item_b] (init [] None 1))))))"

definition after_second_failure :: Orchestrator where
  "after_second_failure =
     snd (notify_work_failure 1 ''b.wav'' manager_E1 \<lparr>attempts = 1, can_retry = True\<rparr>
       (snd (steal_work manager_E1 after_first_failure)))"

section \<open>Basic facts\<close>

lemma in_keys_iff: "k \<in> keys d \<longleftrightarrow> map_of d k \<noteq> None"
  by (simp add: keys_def map_of_eq_None_iff)

lemma keys_delete: "keys (AList.delete k d) = keys d - {k}"
  by (auto simp: keys_def AList.delete_eq)

lemma keys_update: "keys (AList.update k v d) = insert k (keys d)"
  by (simp add: keys_def dom_update)

lemma merged_result_frame:
  "merged_result fp r (st\<lparr>cnt_work_success_cb := a\<rparr>) = merged_result fp r st"
  "merged_result fp r (st\<lparr>cnt_work_failure_cb := a\<rparr>) = merged_result fp r st"
  "merged_result fp r (st\<lparr>in_progress := b\<rparr>) = merged_result fp r st"
  "merged_result fp r (st\<lparr>in_progress_owner := c\<rparr>) = merged_result fp r st"
  by (simp_all add: merged_result_def)

lemma can_retry_merged: "can_retry (merged_result fp r st) = can_retry r"
  by (simp add: merged_result_def split: option.splits)

lemma work_results_check_completion: "work_results (check_completion st) = work_results st"
  by (simp add: check_completion_def)

text \<open>What the two callbacks do for a manager that is neither retired nor stopped.\<close>

lemma notify_work_success_live:
  assumes "name manager \<notin> old_managers st" "\<not> stop_requested st"
    and "fp \<in> keys (in_progress st)" "fp \<in> keys (in_progress_owner st)"
  shows "notify_work_success fp manager result st =
           (Returns (),
            check_completion
              (st\<lparr>cnt_work_success_cb := cnt_work_success_cb st + 1,
                  in_progress := AList.delete fp (in_progress st),
                  in_progress_owner := AList.delete fp (in_progress_owner st),
                  work_results :=
                    AList.update fp (Some (merged_result fp result st)) (work_results st)\<rparr>))"
  using assms
  by (simp add: notify_work_success_def Let_def merge_results_def merged_result_frame)

lemma notify_work_failure_live:
  assumes "name manager \<notin> old_managers st" "\<not> stop_requested st"
    and "map_of (in_progress st) fp = Some work" "fp \<in> keys (in_progress_owner st)"
  shows "notify_work_failure max_retries fp manager result st =
           (Returns (),
            check_completion
              (st\<lparr>cnt_work_failure_cb := cnt_work_failure_cb st + 1,
                  work_results :=
                    AList.update fp (Some (merged_result fp result st)) (work_results st),
                  file_queue :=
                    (if can_retry result \<and> attempts (merged_result fp result st) - 1 < max_retries
                     then file_queue st @ [work] else file_queue st),
                  file_queue_size :=
                    (if can_retry result \<and> attempts (merged_result fp result st) - 1 < max_retries
                     then file_queue_size st + 1 else file_queue_size st),
                  file_queue_cond :=
                    (if can_retry result \<and> attempts (merged_result fp result st) - 1 < max_retries
                     then file_queue_cond st @ [Notify] else file_queue_cond st),
                  in_progress := AList.delete fp (in_progress st),
                  in_progress_owner := AList.delete fp (in_progress_owner st)\<rparr>))"
  using assms
  by (auto simp: notify_work_failure_def Let_def merge_results_def merged_result_frame
      can_retry_merged update_conv' in_keys_iff)

lemma notify_work_success_retired:
  "name manager \<in> old_managers st \<or> stop_requested st \<Longrightarrow>
   notify_work_success fp manager result st =
     (Returns (), st\<lparr>cnt_work_success_cb := cnt_work_success_cb st + 1\<rparr>)"
  by (auto simp: notify_work_success_def Let_def)

lemma notify_work_failure_retired:
  "name manager \<in> old_managers st \<or> stop_requested st \<Longrightarrow>
   notify_work_failure max_retries fp manager result st =
     (Returns (), st\<lparr>cnt_work_failure_cb := cnt_work_failure_cb st + 1\<rparr>)"
  by (auto simp: notify_work_failure_def Let_def)

section \<open>Merging results\<close>

text \<open>
  Claim C3. For every filepath and every incoming result, \<open>_merge_results\<close> stores the
  incoming result as it is when nothing is stored for the filepath or the stored value is
  the \<open>None\<close> placeholder of the batch start, and otherwise stores the incoming result
  with its \<open>attempts\<close> increased by the attempts stored before; the entries of the other
  filepaths stay as they are. This is the merge that \<open>notify_work_success\<close> and
  \<open>notify_work_failure\<close> perform for a manager that is neither retired nor stopped.
\<close>

theorem merge_accumulates_attempts:
  "map_of (work_results (merge_results fp result st)) fp =
     Some (Some (case map_of (work_results st) fp of
                   Some (Some prev) \<Rightarrow> result\<lparr>attempts := attempts result + attempts prev\<rparr>
                 | _ \<Rightarrow> result))
   \<and> (\<forall>fp'. fp' \<noteq> fp \<longrightarrow>
         map_of (work_results (merge_results fp result st)) fp' = map_of (work_results st) fp')
   \<and> (name manager \<notin> old_managers st \<and> \<not> stop_requested st \<and>
        fp \<in> keys (in_progress st) \<and> fp \<in> keys (in_progress_owner st) \<longrightarrow>
        work_results (snd (notify_work_success fp manager result st)) =
          work_results (merge_results fp result st) \<and>
        work_results (snd (notify_work_failure max_retries fp manager result st)) =
          work_results (merge_results fp result st))"
proof (intro conjI allI impI)
  show "map_of (work_results (merge_results fp result st)) fp =
     Some (Some (case map_of (work_results st) fp of
                   Some (Some prev) \<Rightarrow> result\<lparr>attempts := attempts result + attempts prev\<rparr>
                 | _ \<Rightarrow> result))"
    by (simp add: merge_results_def update_conv' merged_result_def split: option.splits)
next
  fix fp' assume "fp' \<noteq> fp"
  then show "map_of (work_results (merge_results fp result st)) fp' = map_of (work_results st) fp'"
    by (simp add: merge_results_def update_conv')
next
  assume live: "name manager \<notin> old_managers st \<and> \<not> stop_requested st \<and>
        fp \<in> keys (in_progress st) \<and> fp \<in> keys (in_progress_owner st)"
  then show "work_results (snd (notify_work_success fp manager result st)) =
          work_results (merge_results fp result st)"
    by (simp add: notify_work_success_live work_results_check_completion merge_results_def)
next
  assume live: "name manager \<notin> old_managers st \<and> \<not> stop_requested st \<and>
        fp \<in> keys (in_progress st) \<and> fp \<in> keys (in_progress_owner st)"
  then obtain work where "map_of (in_progress st) fp = Some work"
    by (auto simp: in_keys_iff)
  with live show "work_results (snd (notify_work_failure max_retries fp manager result st)) =
          work_results (merge_results fp result st)"
    by (simp add: notify_work_failure_live work_results_check_completion merge_results_def)
qed

theorem merge_accumulates_attempts_witness:
  "map_of (work_results (merge_results ''a.wav'' \<lparr>attempts = 1, can_retry = False\<rparr> running_state))
     ''a.wav'' = Some (Some \<lparr>attempts = 2, can_retry = False\<rparr>)
   \<and> map_of (work_results (merge_results ''b.wav'' \<lparr>attempts = 1, can_retry = False\<rparr> running_state))
     ''b.wav'' = Some (Some \<lparr>attempts = 1, can_retry = False\<rparr>)
   \<and> map_of (work_results
        (snd (notify_work_failure 3 ''a.wav'' manager_E1 \<lparr>attempts = 1, can_retry = False\<rparr>
               running_state))) ''a.wav'' = Some (Some \<lparr>attempts = 2, can_retry = False\<rparr>)"
  using merge_accumulates_attempts [of "''a.wav''" "\<lparr>attempts = 1, can_retry = False\<rparr>"
      running_state manager_E1 3]
    merge_accumulates_attempts [of "''b.wav''" "\<lparr>attempts = 1, can_retry = False\<rparr>"
      running_state manager_E1 3]
  by (simp add: running_state_def init_def manager_E1_def keys_def)

section \<open>Callbacks of a retired manager\<close>

text \<open>
  Claim C5. When the name of the manager is in \<open>old_managers\<close>, \<open>notify_work_success\<close>
  and \<open>notify_work_failure\<close> return with the state they found, for every filepath and
  result: the work queue, its size, \<open>in_progress\<close>, \<open>in_progress_owner\<close>, \<open>work_results\<close>
  and the completion event are unchanged. The only field written is the debug counter of
  callback entries.
\<close>

theorem retired_callbacks_ignored:
  "name manager \<in> old_managers st \<Longrightarrow>
   notify_work_success fp manager result st =
     (Returns (), st\<lparr>cnt_work_success_cb := cnt_work_success_cb st + 1\<rparr>) \<and>
   notify_work_failure max_retries fp manager result st =
     (Returns (), st\<lparr>cnt_work_failure_cb := cnt_work_failure_cb st + 1\<rparr>)"
  by (simp add: notify_work_success_retired notify_work_failure_retired)

theorem retired_callbacks_ignored_witness:
  "notify_work_success ''a.wav'' manager_E1 \<lparr>attempts = 1, can_retry = True\<rparr>
     (running_state\<lparr>old_managers := {''HotswapGen0_E1''}\<rparr>) =
     (Returns (), running_state\<lparr>old_managers := {''HotswapGen0_E1''}, cnt_work_success_cb := 1\<rparr>) \<and>
   notify_work_failure 3 ''a.wav'' manager_E1 \<lparr>attempts = 1, can_retry = True\<rparr>
     (running_state\<lparr>old_managers := {''HotswapGen0_E1''}\<rparr>) =
     (Returns (), running_state\<lparr>old_managers := {''HotswapGen0_E1''}, cnt_work_failure_cb := 1\<rparr>)"
  using retired_callbacks_ignored [of manager_E1
      "running_state\<lparr>old_managers := {''HotswapGen0_E1''}\<rparr>" "''a.wav''"
      "\<lparr>attempts = 1, can_retry = True\<rparr>" 3]
  by (simp add: running_state_def init_def manager_E1_def)

section \<open>Language routing in \<open>steal_work\<close>\<close>

lemma steal_work_mismatch:
  assumes "name manager \<notin> old_managers st" "\<not> stop_requested st" "file_queue_size st > 0"
    and "file_queue st = work # rest" "language work = Some wl" "wl \<noteq> []"
    and "map_of (endpoint_config manager) ''language'' = Some l" "lower l \<noteq> lower wl"
  shows "steal_work manager st =
           (Returns Sentinel,
            st\<lparr>file_queue := rest @ [work], file_queue_cond := file_queue_cond st @ [Notify]\<rparr>)"
  using assms by (simp add: steal_work_def Let_def)

lemma steal_work_returns_work:
  assumes "steal_work manager st = (Returns (Work w), st')" "language w = Some wl" "wl \<noteq> []"
  shows "\<exists>l. map_of (endpoint_config manager) ''language'' = Some l \<and> lower l = lower wl"
  using assms
  by (auto simp: steal_work_def Let_def split: if_splits list.splits option.splits)

text \<open>
  Claim C6. \<open>steal_work\<close> never returns a work item whose \<open>language\<close> is set (neither
  \<open>None\<close> nor empty) and differs, compared in lower case, from the \<open>language\<close> entry of
  the calling manager's \<open>endpoint_config\<close>. When it dequeues such an item it puts the item
  back on the queue, so the queue holds the same items with the mismatched one now last,
  the size counter and the in-progress dictionaries are as before, one waiter is notified,
  and the sentinel is returned.
\<close>

theorem steal_work_language_routing:
  "(\<forall>w st'. steal_work manager st = (Returns (Work w), st') \<longrightarrow>
      (\<forall>wl. language w = Some wl \<and> wl \<noteq> [] \<longrightarrow>
         (\<exists>l. map_of (endpoint_config manager) ''language'' = Some l \<and> lower l = lower wl)))
   \<and> (name manager \<notin> old_managers st \<and> \<not> stop_requested st \<and> file_queue_size st > 0 \<and>
       file_queue st = work # rest \<and> language work = Some wl' \<and> wl' \<noteq> [] \<and>
       map_of (endpoint_config manager) ''language'' = Some l' \<and> lower l' \<noteq> lower wl' \<longrightarrow>
       steal_work manager st =
         (Returns Sentinel,
          st\<lparr>file_queue := rest @ [work], file_queue_cond := file_queue_cond st @ [Notify]\<rparr>))"
  using steal_work_returns_work steal_work_mismatch by blast

lemma lower_en: "lower ''en-US'' = ''en-us''" "lower ''en-us'' = ''en-us''" "lower ''fr-FR'' = ''fr-fr''"
  by (simp_all add: lower_def lower_char_def)

theorem steal_work_language_routing_witness:
  "steal_work manager_fr queued_state =
     (Returns Sentinel,
      queued_state\<lparr>file_queue := [item_b, item_a], file_queue_cond := [NotifyAll, Notify]\<rparr>)
   \<and> lower ''fr-FR'' \<noteq> lower ''en-US''
   \<and> steal_work manager_E1 queued_state =
       (Returns (Work item_a),
        queued_state\<lparr>file_queue := [item_b], file_queue_size := 1,
          in_progress := [(''a.wav'', item_a)], in_progress_owner := [(''a.wav'', manager_E1)]\<rparr>)
   \<and> lower ''en-us'' = lower ''en-US''"
  using steal_work_language_routing [of manager_fr queued_state item_a "[item_b]" "''en-US''" "''fr-FR''"]
    steal_work_language_routing [of manager_E1 queued_state item_a "[item_b]" "''en-US''" "''fr-FR''"]
  by (simp add: queued_state_def init_def manager_fr_def manager_E1_def item_a_def item_b_def
      lower_en steal_work_def Let_def)

section \<open>The unguarded lookup of the language in \<open>steal_work\<close>\<close>

lemma steal_work_no_raise:
  assumes "\<forall>work rest wl. file_queue st = work # rest \<and> language work = Some wl \<and> wl \<noteq> [] \<longrightarrow>
             ''language'' \<in> keys (endpoint_config manager)"
  shows "fst (steal_work manager st) \<noteq> Raises e"
  using assms
  by (auto simp: steal_work_def Let_def in_keys_iff split: if_splits list.splits option.splits)

text \<open>
  Claim C10. \<open>steal_work\<close> raises nothing provided the calling manager's
  \<open>endpoint_config\<close> has the key \<open>language\<close> whenever the work item at the head of the
  queue has its language set. Without that, it can raise: for a queued item with a
  language and a manager whose configuration lacks the key, the lookup
  \<open>manager.endpoint_config["language"]\<close> raises \<open>KeyError\<close>, after the item was taken off
  the queue.
\<close>

theorem steal_work_missing_language_key:
  "((\<forall>work rest wl. file_queue st = work # rest \<and> language work = Some wl \<and> wl \<noteq> [] \<longrightarrow>
        ''language'' \<in> keys (endpoint_config manager)) \<longrightarrow>
      (\<forall>e. fst (steal_work manager st) \<noteq> Raises e))
   \<and> steal_work manager_nolang queued_state =
       (Raises KeyError, queued_state\<lparr>file_queue := [item_b], file_queue_size := 1\<rparr>)"
proof (intro conjI impI allI)
  fix e
  assume "\<forall>work rest wl. file_queue st = work # rest \<and> language work = Some wl \<and> wl \<noteq> [] \<longrightarrow>
        ''language'' \<in> keys (endpoint_config manager)"
  then show "fst (steal_work manager st) \<noteq> Raises e"
    by (rule steal_work_no_raise)
next
  show "steal_work manager_nolang queued_state =
       (Raises KeyError, queued_state\<lparr>file_queue := [item_b], file_queue_size := 1\<rparr>)"
    by (simp add: steal_work_def Let_def queued_state_def init_def manager_nolang_def item_a_def)
qed

theorem steal_work_missing_language_key_witness:
  "(\<forall>e. fst (steal_work manager_E1 queued_state) \<noteq> Raises e)
   \<and> ''language'' \<in> keys (endpoint_config manager_E1)
   \<and> ''language'' \<notin> keys (endpoint_config manager_nolang)
   \<and> fst (steal_work manager_nolang queued_state) = Raises KeyError"
  using steal_work_missing_language_key [of queued_state manager_E1]
  by (simp add: manager_E1_def manager_nolang_def keys_def)

section \<open>Cancelling the running batch\<close>

lemma drain_exact: "drain q (int (length q)) = (True, [], 0)"
proof (induction q)
  case Nil
  show ?case by (subst drain.simps) simp
next
  case (Cons w rest)
  have "drain (w # rest) (int (length (w # rest))) = drain rest (int (length rest))"
    by (subst drain.simps) simp
  with Cons show ?case by simp
qed

lemma drain_done: "n \<le> 0 \<Longrightarrow> drain q n = (True, q, n)"
  by (subst drain.simps) simp

lemma drain_counter: "drain q n = (True, q', n') \<Longrightarrow> n' \<le> 0"
proof (induction q n rule: drain.induct)
  case (1 q n)
  show ?case
  proof (cases "n > 0")
    case False
    with "1.prems" show ?thesis by (subst (asm) drain.simps) simp
  next
    case True
    show ?thesis
    proof (cases q)
      case Nil
      with True "1.prems" show ?thesis by (subst (asm) drain.simps) simp
    next
      case (Cons w rest)
      with True "1.prems" have "drain rest (n - 1) = (True, q', n')"
        by (subst (asm) drain.simps) simp
      with "1.IH" True Cons show ?thesis by simp
    qed
  qed
qed

text \<open>
  Claim C7. \<open>cancel_running_batch(batch_id)\<close> returns \<open>False\<close> and leaves the state as it
  is when \<open>on_batch_id\<close> differs from \<open>batch_id\<close>. Otherwise, in a state whose size
  counter equals the length of the queue (the accounting invariant, which holds in every
  reachable state), it returns \<open>True\<close> and afterwards the queue is empty with size 0,
  \<open>in_progress\<close> and \<open>in_progress_owner\<close> are empty, the managers are the same ones, each
  with its name in \<open>old_managers\<close> and asked to stop, and the completion event is set.
\<close>

theorem cancel_running_batch_effect:
  "(on_batch_id st \<noteq> bid \<longrightarrow> cancel_running_batch bid st = (Returns False, st))
   \<and> (on_batch_id st = bid \<and> file_queue_size st = int (length (file_queue st)) \<longrightarrow>
        (\<exists>st'. cancel_running_batch bid st = (Returns True, st') \<and>
           file_queue st' = [] \<and> file_queue_size st' = 0 \<and>
           in_progress st' = [] \<and> in_progress_owner st' = [] \<and>
           map name (endpoint_managers st') = map name (endpoint_managers st) \<and>
           (\<forall>m \<in> set (endpoint_managers st'). name m \<in> old_managers st' \<and> em_stop_requested m) \<and>
           batch_completion_evt st'))"
  by (auto simp: cancel_running_batch_def drain_exact em_request_stop_def)

theorem cancel_running_batch_effect_witness:
  "cancel_running_batch 8 running_state = (Returns False, running_state)
   \<and> cancel_running_batch 7 running_state =
       (Returns True,
        running_state\<lparr>file_queue := [], file_queue_size := 0, file_queue_cond := [NotifyAll],
          in_progress := [], in_progress_owner := [],
          endpoint_managers := [manager_E1\<lparr>em_stop_requested := True\<rparr>],
          old_managers := {''HotswapGen0_E1''}, batch_completion_evt := True\<rparr>)"
proof -
  have size: "file_queue_size running_state = int (length (file_queue running_state))"
    by (simp add: running_state_def init_def)
  have id: "on_batch_id running_state = 7"
    by (simp add: running_state_def init_def)
  from cancel_running_batch_effect [of running_state 7] size id
  obtain st' where "cancel_running_batch 7 running_state = (Returns True, st')"
    by blast
  moreover have "drain [item_b] 1 = (True, [], 0)"
    using drain_exact [of "[item_b]"] by simp
  ultimately show ?thesis
    using cancel_running_batch_effect [of running_state 8]
    by (simp add: cancel_running_batch_def running_state_def init_def em_request_stop_def
        manager_E1_def)
qed

section \<open>Repeated stop requests\<close>

lemma em_request_stop_idem: "em_request_stop (em_request_stop m) = em_request_stop m"
  by (simp add: em_request_stop_def)

lemma request_stop_other_process:
  "pid \<noteq> creator_pid st \<Longrightarrow> request_stop pid notifier_stop st = (Returns (), st)"
  by (simp add: request_stop_def)

lemma request_stop_returned:
  assumes "request_stop pid r st = (Returns (), st1)" "pid = creator_pid st"
  shows "stop_requested st1 \<and> file_queue_size st1 \<le> 0 \<and> batch_completion_evt st1 \<and>
         run_summary_thread_gate st1 \<and> creator_pid st1 = creator_pid st \<and>
         map em_request_stop (endpoint_managers st1) = endpoint_managers st1"
proof -
  obtain sta where a: "stop_notifier r st = Inr sta"
    using assms by (auto simp: request_stop_def split: sum.splits)
  obtain q n where d: "drain (file_queue sta) (file_queue_size sta) = (True, q, n)"
    using assms a
    by (cases "drain (file_queue sta) (file_queue_size sta)")
       (auto simp: request_stop_def Let_def split: bool.splits)
  have pid: "creator_pid sta = creator_pid st"
    using a by (auto simp: stop_notifier_def split: if_splits option.splits exn.splits)
  from drain_counter [OF d] assms a d pid show ?thesis
    by (auto simp: request_stop_def Let_def em_request_stop_idem)
qed

lemma request_stop_again:
  assumes first: "request_stop pid r1 st = (Returns (), st1)" and pid: "pid = creator_pid st"
    and again: "config_notifier st1 \<longrightarrow> r2 = Some (OSError EBADF)"
  shows "request_stop pid r2 st1 =
           (Returns (),
            st1\<lparr>submission_que := submission_que st1 @ [None],
                file_queue_cond := file_queue_cond st1 @ [NotifyAll]\<rparr>)"
proof -
  note f = request_stop_returned [OF first pid]
  have n: "stop_notifier r2 st1 = Inr st1"
    using again by (auto simp: stop_notifier_def)
  have d: "drain (file_queue st1) (file_queue_size st1) = (True, file_queue st1, file_queue_size st1)"
    using f by (simp add: drain_done)
  show ?thesis
    using f pid n d by (simp add: request_stop_def Let_def)
qed

text \<open>
  Claim C8, as amended. Called from a process other than the creator, \<open>request_stop\<close>
  is a complete no-op. A second call from the creator process, after a first one that
  returned, leaves the state as the first call left it except for two things: one more
  stop sentinel \<open>None\<close> is put on the submission stream, and the queue condition is
  broadcast once more. (If the first call left the notifier in place because its
  \<open>stop()\<close> reported \<open>EBADF\<close>, the second is taken to report the same.)
\<close>

theorem request_stop_repeated:
  "(pid \<noteq> creator_pid st \<longrightarrow> request_stop pid r1 st = (Returns (), st))
   \<and> (pid = creator_pid st \<and> request_stop pid r1 st = (Returns (), st1) \<and>
       (config_notifier st1 \<longrightarrow> r2 = Some (OSError EBADF)) \<longrightarrow>
       request_stop pid r2 st1 =
         (Returns (),
          st1\<lparr>submission_que := submission_que st1 @ [None],
              file_queue_cond := file_queue_cond st1 @ [NotifyAll]\<rparr>))"
  using request_stop_other_process request_stop_again by blast

lemma request_stop_running_state:
  "request_stop 1 None running_state = (Returns (), stopped_state)"
proof -
  have "drain [item_b] 1 = (True, [], 0)"
    using drain_exact [of "[item_b]"] by simp
  then show ?thesis
    by (simp add: request_stop_def stop_notifier_def Let_def running_state_def init_def
        stopped_state_def em_request_stop_def)
qed

text \<open>
  Claim C8 as stated fails: after the second call the submission stream holds two stop
  sentinels, after the first call one.
\<close>

theorem request_stop_not_idempotent:
  "request_stop 1 None running_state = (Returns (), stopped_state)
   \<and> submission_que stopped_state = [None]
   \<and> submission_que (snd (request_stop 1 None stopped_state)) = [None, None]"
proof -
  have "drain [] 0 = (True, [], 0)"
    by (simp add: drain_done)
  then have "submission_que (snd (request_stop 1 None stopped_state)) = [None, None]"
    by (simp add: request_stop_def stop_notifier_def Let_def running_state_def init_def
        stopped_state_def)
  then show ?thesis
    by (simp add: request_stop_running_state) (simp add: stopped_state_def)
qed

theorem request_stop_repeated_witness:
  "request_stop 2 None running_state = (Returns (), running_state)
   \<and> request_stop 1 None stopped_state =
       (Returns (), stopped_state\<lparr>submission_que := [None, None],
                                  file_queue_cond := [NotifyAll, NotifyAll]\<rparr>)"
  using request_stop_repeated [of 2 running_state None stopped_state None]
    request_stop_repeated [of 1 running_state None stopped_state None]
    request_stop_running_state
  by (simp add: running_state_def init_def stopped_state_def)

section \<open>Completion event and stop\<close>

text \<open>
  Claim C4, at the failing input. \<open>request_stop\<close> on a batch with a work item in progress
  drains the queue and sets the completion event, but leaves \<open>in_progress\<close> as it was: the
  event is set in a state in which \<open>in_progress\<close> is not empty.
\<close>

theorem request_stop_leaves_in_progress:
  "request_stop 1 None running_state = (Returns (), stopped_state)
   \<and> batch_completion_evt stopped_state
   \<and> file_queue stopped_state = []
   \<and> in_progress stopped_state = [(''a.wav'', item_a)]"
  by (simp add: request_stop_running_state) (simp add: stopped_state_def running_state_def)

section \<open>Failures of the summary write\<close>

lemma write_summary_information_failure:
  assumes "is_Exception e" "truthy (singleton_run_summary_path st) \<or> e \<noteq> BatchNotFoundException"
  shows "write_summary_information True retries lc allow_fail (Some e) st =
           (if allow_fail then Returns () else Raises e, [Warning_failed_to_write_run_summary])"
  using assms by (auto simp: write_summary_information_def)

text \<open>
  Claim C9, as amended. When the write of the run summary fails with an exception
  (other than the \<open>BatchNotFoundException\<close> of the status provider, which is passed over
  in silence), \<open>write_summary_information\<close> logs a warning, and raises the exception again
  if and only if \<open>allow_fail\<close> is false. The per-batch final write of the master loop
  passes \<open>allow_fail=True\<close>, so a failure there is logged and does not propagate. The
  periodic write of the run-summary loop uses the default \<open>allow_fail=False\<close>; what
  propagates there is caught and logged by the loop.
\<close>

theorem summary_write_failure_propagation:
  "is_Exception e \<and> (truthy (singleton_run_summary_path st) \<or> e \<noteq> BatchNotFoundException) \<longrightarrow>
     write_summary_information True retries lc allow_fail (Some e) st =
       (if allow_fail then Returns () else Raises e, [Warning_failed_to_write_run_summary])
     \<and> master_final_summary (Some e) st = (Returns (), [Warning_failed_to_write_run_summary])
     \<and> (\<not> stop_requested st \<and> on_batch_id st > - 1 \<and> summarizer st \<longrightarrow>
          run_summary_round (Some e) st =
            (Returns (), [Warning_failed_to_write_run_summary, Error_in_run_summary_loop]))"
  by (auto simp: write_summary_information_failure master_final_summary_def run_summary_round_def)

text \<open>
  Claim C9 as stated fails: the final write of the master loop is made with
  \<open>allow_fail=True\<close>, and a failing write (here \<open>ENOSPC\<close>) returns normally.
\<close>

theorem master_final_summary_swallows_failure:
  "master_final_summary (Some (OSError 28)) queued_state =
     (Returns (), [Warning_failed_to_write_run_summary])
   \<and> master_final_summary (Some (OSError 28)) queued_state =
       write_summary_information True 10 True True (Some (OSError 28)) queued_state"
  by (simp add: master_final_summary_def write_summary_information_def queued_state_def init_def)

theorem summary_write_failure_propagation_witness:
  "write_summary_information True 10 True False (Some (OSError 28)) queued_state =
     (Raises (OSError 28), [Warning_failed_to_write_run_summary])
   \<and> write_summary_information True 10 True True (Some (OSError 28)) queued_state =
     (Returns (), [Warning_failed_to_write_run_summary])
   \<and> run_summary_round (Some (OSError 28)) queued_state =
       (Returns (), [Warning_failed_to_write_run_summary, Error_in_run_summary_loop])"
  using summary_write_failure_propagation [of "OSError 28" queued_state 10 True False]
    summary_write_failure_propagation [of "OSError 28" queued_state 10 True True]
  by (simp add: queued_state_def init_def)

section \<open>Hot swap and the work in progress\<close>

lemma delete_as_filter: "AList.delete k d = [e \<leftarrow> d. fst e \<noteq> k]"
  by (induction d) auto

text \<open>The un-assigning loop, run on dictionaries with the same keys, never raises.\<close>

lemma unassign_result:
  assumes "distinct (map fst items)" "keys items \<subseteq> keys owners"
    and "keys items \<subseteq> keys wip" "keys items \<subseteq> keys wipo"
  shows "unassign deleted owners items (wip, wipo, q, n) =
           (None,
            [e \<leftarrow> wip. \<not> (fst e \<in> keys items \<and> owner_deleted deleted owners (fst e))],
            [e \<leftarrow> wipo. \<not> (fst e \<in> keys items \<and> owner_deleted deleted owners (fst e))],
            q @ map snd [e \<leftarrow> items. owner_deleted deleted owners (fst e)],
            n + int (length [e \<leftarrow> items. owner_deleted deleted owners (fst e)]))"
  using assms
proof (induction items arbitrary: wip wipo q n)
  case Nil
  show ?case by (simp add: keys_def)
next
  case (Cons item items)
  obtain fp w where item: "item = (fp, w)" by (cases item)
  from Cons.prems item have "fp \<in> keys owners"
    by (auto simp: keys_def)
  then obtain owner where owner: "map_of owners fp = Some owner"
    by (auto simp: in_keys_iff)
  from Cons.prems item have fresh: "fp \<notin> keys items"
    by (auto simp: keys_def)
  have sub: "keys items \<subseteq> keys owners" "keys items \<subseteq> keys wip" "keys items \<subseteq> keys wipo"
    and dist: "distinct (map fst items)"
    using Cons.prems by (auto simp: keys_def)
  have ks: "keys (item # items) = insert fp (keys items)"
    by (simp add: keys_def item)
  show ?case
  proof (cases "endpoint_name owner \<in> deleted")
    case True
    then have od: "owner_deleted deleted owners fp"
      by (simp add: owner_deleted_def owner)
    have inw: "fp \<in> keys wip" "fp \<in> keys wipo"
      using Cons.prems item by (auto simp: keys_def)
    have sub': "keys items \<subseteq> keys (AList.delete fp wip)" "keys items \<subseteq> keys (AList.delete fp wipo)"
      using sub fresh by (auto simp: keys_delete)
    have f1: "[e \<leftarrow> AList.delete fp wip. \<not> (fst e \<in> keys items \<and> owner_deleted deleted owners (fst e))] =
              [e \<leftarrow> wip. \<not> (fst e \<in> keys (item # items) \<and> owner_deleted deleted owners (fst e))]"
      unfolding delete_as_filter filter_filter ks using od
      by (intro filter_cong refl) auto
    have f2: "[e \<leftarrow> AList.delete fp wipo. \<not> (fst e \<in> keys items \<and> owner_deleted deleted owners (fst e))] =
              [e \<leftarrow> wipo. \<not> (fst e \<in> keys (item # items) \<and> owner_deleted deleted owners (fst e))]"
      unfolding delete_as_filter filter_filter ks using od
      by (intro filter_cong refl) auto
    have step: "unassign deleted owners (item # items) (wip, wipo, q, n) =
            unassign deleted owners items
              (AList.delete fp wip, AList.delete fp wipo, q @ [w], n + 1)"
      using True owner inw by (simp add: item)
    show ?thesis
      unfolding step Cons.IH [OF dist sub(1) sub'] f1 f2
      using od by (simp add: item)
  next
    case False
    then have od: "\<not> owner_deleted deleted owners fp"
      by (simp add: owner_deleted_def owner)
    have f: "\<And>d :: (string \<times> 'x) list.
               [e \<leftarrow> d. \<not> (fst e \<in> keys items \<and> owner_deleted deleted owners (fst e))] =
               [e \<leftarrow> d. \<not> (fst e \<in> keys (item # items) \<and> owner_deleted deleted owners (fst e))]"
      unfolding ks using od by (intro filter_cong refl) auto
    have step: "unassign deleted owners (item # items) (wip, wipo, q, n) =
            unassign deleted owners items (wip, wipo, q, n)"
      using False owner by (simp add: item)
    show ?thesis
      unfolding step Cons.IH [OF dist sub] f
      using od by (simp add: item)
  qed
qed

lemma hotswap_swaps:
  assumes "\<not> stop_requested st"
    and "hotswap_plan ctor_ok config_data st = Some (deleted_managers, new_em_objs)"
    and "distinct (map fst (in_progress st))"
    and "keys (in_progress st) = keys (in_progress_owner st)"
  shows "hotswap_endpoint_managers (Inr config_data) ctor_ok st =
           (Returns (),
            st\<lparr>endpoint_generation := endpoint_generation st + 1,
                old_managers :=
                  old_managers st \<union>
                  name ` {m \<in> set (endpoint_managers st). endpoint_name m \<in> keys deleted_managers},
                file_queue :=
                  file_queue st @
                  map snd [e \<leftarrow> in_progress st.
                             owner_deleted (keys deleted_managers) (in_progress_owner st) (fst e)],
                file_queue_size :=
                  file_queue_size st +
                  int (length [e \<leftarrow> in_progress st.
                                 owner_deleted (keys deleted_managers) (in_progress_owner st) (fst e)]),
                in_progress :=
                  [e \<leftarrow> in_progress st.
                     \<not> owner_deleted (keys deleted_managers) (in_progress_owner st) (fst e)],
                in_progress_owner :=
                  [e \<leftarrow> in_progress_owner st.
                     \<not> owner_deleted (keys deleted_managers) (in_progress_owner st) (fst e)],
                file_queue_cond := file_queue_cond st @ [NotifyAll],
                endpoint_managers :=
                  map (\<lambda>m. m\<lparr>em_status_checker := fst (batch_tools (on_batch_type st))\<rparr>)
                    ([em \<leftarrow> map (\<lambda>m. if endpoint_name m \<in> keys deleted_managers
                                        then em_request_stop m else m) (endpoint_managers st).
                        endpoint_name em \<notin> keys deleted_managers] @
                     map (\<lambda>m. m\<lparr>started := True\<rparr>) new_em_objs)\<rparr>)"
proof -
  let ?od = "owner_deleted (keys deleted_managers) (in_progress_owner st)"
  have u: "unassign (keys deleted_managers) (in_progress_owner st) (in_progress st)
             (in_progress st, in_progress_owner st, file_queue st, file_queue_size st) =
           (None,
            [e \<leftarrow> in_progress st. \<not> (fst e \<in> keys (in_progress st) \<and> ?od (fst e))],
            [e \<leftarrow> in_progress_owner st. \<not> (fst e \<in> keys (in_progress st) \<and> ?od (fst e))],
            file_queue st @ map snd [e \<leftarrow> in_progress st. ?od (fst e)],
            file_queue_size st + int (length [e \<leftarrow> in_progress st. ?od (fst e)]))"
    using assms(3,4) by (intro unassign_result) auto
  have f1: "[e \<leftarrow> in_progress st. \<not> (fst e \<in> keys (in_progress st) \<and> ?od (fst e))] =
            [e \<leftarrow> in_progress st. \<not> ?od (fst e)]"
    by (intro filter_cong refl) (auto simp: keys_def)
  have f2: "[e \<leftarrow> in_progress_owner st. \<not> (fst e \<in> keys (in_progress st) \<and> ?od (fst e))] =
            [e \<leftarrow> in_progress_owner st. \<not> ?od (fst e)]"
    unfolding assms(4) by (intro filter_cong refl) (auto simp: keys_def)
  show ?thesis
    using assms(1,2) u [unfolded f1 f2]
    by (simp add: hotswap_endpoint_managers_def Let_def)
qed

lemma keys_filter: "keys [e \<leftarrow> d. P (fst e)] = {k \<in> keys d. P k}"
  by (auto simp: keys_def)

lemma filed_under_filepath:
  "\<forall>(k, w) \<in> set d. filepath w = k \<Longrightarrow> map (filepath \<circ> snd) d = map fst d"
  by (induction d) auto

lemma hotswap_swaps_accounting_inv:
  assumes inv: "accounting_inv st" and live: "\<not> stop_requested st"
    and st': "st' = st\<lparr>endpoint_generation := g, old_managers := om,
                file_queue := file_queue st @ map snd [e \<leftarrow> in_progress st. od (fst e)],
                file_queue_size :=
                  file_queue_size st + int (length [e \<leftarrow> in_progress st. od (fst e)]),
                in_progress := [e \<leftarrow> in_progress st. \<not> od (fst e)],
                in_progress_owner := [e \<leftarrow> in_progress_owner st. \<not> od (fst e)],
                file_queue_cond := c, endpoint_managers := ms\<rparr>"
  shows "accounting_inv st'"
proof -
  let ?moved = "[e \<leftarrow> in_progress st. od (fst e)]"
  from inv have size: "file_queue_size st = int (length (file_queue st))"
    and ks: "keys (in_progress st) = keys (in_progress_owner st)"
    and dist: "distinct (map fst (in_progress st))"
    and filed: "\<forall>(k, w) \<in> set (in_progress st). filepath w = k"
    and distq: "distinct (map filepath (file_queue st))"
    and disj: "filepath ` set (file_queue st) \<inter> keys (in_progress st) = {}"
    and evt: "batch_completion_evt st \<longrightarrow>
                stop_requested st \<or> (file_queue_size st = 0 \<and> in_progress st = [])"
    unfolding accounting_inv_def by blast+
  have filed_moved: "\<forall>(k, w) \<in> set ?moved. filepath w = k"
    using filed by auto
  have fm: "map (filepath \<circ> snd) ?moved = map fst ?moved"
    by (rule filed_under_filepath [OF filed_moved])
  have 1: "file_queue_size st' = int (length (file_queue st'))"
    by (simp add: st' size)
  have 2: "keys (in_progress st') = keys (in_progress_owner st')"
    by (simp add: st' keys_filter [of "\<lambda>k. \<not> od k"] ks)
  have 3: "distinct (map fst (in_progress st'))"
    by (simp add: st' dist distinct_map_filter)
  have 4: "\<forall>(k, w) \<in> set (in_progress st'). filepath w = k"
    using filed by (auto simp: st')
  have "set (map fst ?moved) \<subseteq> keys (in_progress st)"
    by (auto simp: keys_def)
  with disj have "set (map filepath (file_queue st)) \<inter> set (map fst ?moved) = {}"
    by auto
  then have 5: "distinct (map filepath (file_queue st'))"
    using distq dist by (simp add: st' fm distinct_map_filter del: set_map)
  have "set (map fst ?moved) \<inter> keys [e \<leftarrow> in_progress st. \<not> od (fst e)] = {}"
    by (auto simp: keys_def)
  moreover have "filepath ` set (map snd ?moved) = set (map fst ?moved)"
    using fm by (metis list.set_map map_map)
  ultimately have 6: "filepath ` set (file_queue st') \<inter> keys (in_progress st') = {}"
    using disj by (auto simp: st' image_Un keys_filter [of "\<lambda>k. \<not> od k"])
  have 7: "batch_completion_evt st' \<longrightarrow>
             stop_requested st' \<or> (file_queue_size st' = 0 \<and> in_progress st' = [])"
    using evt live by (auto simp: st')
  from 1 2 3 4 5 6 7 show ?thesis
    unfolding accounting_inv_def by blast
qed

lemma map_of_filter_key:
  "P k \<Longrightarrow> map_of [e \<leftarrow> d. P (fst e)] k = map_of d k"
  by (induction d) auto

text \<open>
  Claim C1. Take any accounting state that satisfies the invariants of the data model,
  and a configuration that loads and for which every new manager can be constructed.
  If a stop was requested, \<open>hotswap_endpoint_managers\<close> returns with the state as it is.
  Otherwise it returns, and every work item that was in \<open>in_progress\<close> before the call
  is afterwards either still in \<open>in_progress\<close> under the same filepath, with an owner
  whose endpoint is not among the deleted ones, or it is on the work queue and no longer
  in progress. Nothing that was queued is lost, and no filepath is both on the queue and
  in \<open>in_progress\<close>.
\<close>

theorem hotswap_preserves_membership:
  assumes inv: "accounting_inv st"
    and plan: "hotswap_plan ctor_ok config_data st = Some (deleted_managers, new_em_objs)"
  shows "(stop_requested st \<longrightarrow>
            hotswap_endpoint_managers (Inr config_data) ctor_ok st = (Returns (), st)) \<and>
         (\<not> stop_requested st \<longrightarrow>
            (\<exists>st'. hotswap_endpoint_managers (Inr config_data) ctor_ok st = (Returns (), st') \<and>
               (\<forall>(fp, work) \<in> set (in_progress st).
                  (map_of (in_progress st') fp = Some work \<and>
                   (\<exists>owner. map_of (in_progress_owner st') fp = Some owner \<and>
                            endpoint_name owner \<notin> keys deleted_managers))
                  \<or> (work \<in> set (file_queue st') \<and> fp \<notin> keys (in_progress st'))) \<and>
               set (file_queue st) \<subseteq> set (file_queue st') \<and>
               filepath ` set (file_queue st') \<inter> keys (in_progress st') = {}))"
proof (intro conjI impI)
  assume "stop_requested st"
  then show "hotswap_endpoint_managers (Inr config_data) ctor_ok st = (Returns (), st)"
    by (simp add: hotswap_endpoint_managers_def)
next
  assume live: "\<not> stop_requested st"
  let ?od = "owner_deleted (keys deleted_managers) (in_progress_owner st)"
  from inv have ks: "keys (in_progress st) = keys (in_progress_owner st)"
    and dist: "distinct (map fst (in_progress st))"
    unfolding accounting_inv_def by blast+
  define st' where "st' = snd (hotswap_endpoint_managers (Inr config_data) ctor_ok st)"
  note swap = hotswap_swaps [OF live plan dist ks]
  have ret: "hotswap_endpoint_managers (Inr config_data) ctor_ok st = (Returns (), st')"
    by (simp add: st'_def swap)
  have q: "file_queue st' = file_queue st @ map snd [e \<leftarrow> in_progress st. ?od (fst e)]"
    and ip: "in_progress st' = [e \<leftarrow> in_progress st. \<not> ?od (fst e)]"
    and ipo: "in_progress_owner st' = [e \<leftarrow> in_progress_owner st. \<not> ?od (fst e)]"
    by (simp_all add: st'_def swap)
  have "accounting_inv st'"
    by (rule hotswap_swaps_accounting_inv [OF inv live, where od = ?od])
       (simp add: st'_def swap)
  then have disj: "filepath ` set (file_queue st') \<inter> keys (in_progress st') = {}"
    unfolding accounting_inv_def by blast
  have each: "(map_of (in_progress st') fp = Some work \<and>
               (\<exists>owner. map_of (in_progress_owner st') fp = Some owner \<and>
                        endpoint_name owner \<notin> keys deleted_managers))
              \<or> (work \<in> set (file_queue st') \<and> fp \<notin> keys (in_progress st'))"
    if mem: "(fp, work) \<in> set (in_progress st)" for fp work
  proof (cases "?od fp")
    case True
    with mem have "work \<in> set (file_queue st')"
      by (force simp: q)
    moreover from True have "fp \<notin> keys (in_progress st')"
      by (auto simp: ip keys_def)
    ultimately show ?thesis by blast
  next
    case False
    from mem have "fp \<in> keys (in_progress_owner st)"
      unfolding ks [symmetric] by (force simp: keys_def)
    then obtain owner where owner: "map_of (in_progress_owner st) fp = Some owner"
      by (auto simp: in_keys_iff)
    with False have kept: "endpoint_name owner \<notin> keys deleted_managers"
      by (simp add: owner_deleted_def)
    have "distinct (map fst (in_progress st'))"
      by (simp add: ip dist distinct_map_filter)
    moreover from mem False have "(fp, work) \<in> set (in_progress st')"
      by (simp add: ip)
    ultimately have "map_of (in_progress st') fp = Some work"
      by (rule map_of_is_SomeI)
    moreover have "map_of (in_progress_owner st') fp = Some owner"
      using owner False by (simp add: ipo map_of_filter_key [of "\<lambda>k. \<not> ?od k"])
    ultimately show ?thesis
      using kept by blast
  qed
  have "set (file_queue st) \<subseteq> set (file_queue st')"
    by (auto simp: q)
  with ret each disj
  show "\<exists>st'. hotswap_endpoint_managers (Inr config_data) ctor_ok st = (Returns (), st') \<and>
           (\<forall>(fp, work) \<in> set (in_progress st).
              (map_of (in_progress st') fp = Some work \<and>
               (\<exists>owner. map_of (in_progress_owner st') fp = Some owner \<and>
                        endpoint_name owner \<notin> keys deleted_managers))
              \<or> (work \<in> set (file_queue st') \<and> fp \<notin> keys (in_progress st'))) \<and>
           set (file_queue st) \<subseteq> set (file_queue st') \<and>
           filepath ` set (file_queue st') \<inter> keys (in_progress st') = {}"
    by blast
qed

lemma running_state_inv: "accounting_inv running_state"
  by (simp add: accounting_inv_def running_state_def init_def keys_def item_a_def item_b_def)

lemma plan_remove_E1:
  "hotswap_plan (\<lambda>_ _. True) [(''E2'', [(''language'', ''fr-FR'')])] running_state =
     Some ([(''E1'', manager_E1)],
           [new_manager 1 ''E2'' [(''language'', ''fr-FR'')] UnknownEndpointStatusChecker
              StubWorkItemProcessor])"
  by (simp add: hotswap_plan_def running_state_def init_def by_endpoint_name_def manager_E1_def)

lemma plan_keep_E1:
  "hotswap_plan (\<lambda>_ _. True) [(''E1'', [(''language'', ''en-us'')])] running_state = Some ([], [])"
  by (simp add: hotswap_plan_def running_state_def init_def by_endpoint_name_def manager_E1_def
      dict_eq_def keys_def)

lemma hotswap_swaps_fields:
  assumes "\<not> stop_requested st"
    and "hotswap_plan ctor_ok config_data st = Some (deleted_managers, new_em_objs)"
    and "distinct (map fst (in_progress st))"
    and "keys (in_progress st) = keys (in_progress_owner st)"
  shows "fst (hotswap_endpoint_managers (Inr config_data) ctor_ok st) = Returns ()"
    and "file_queue (snd (hotswap_endpoint_managers (Inr config_data) ctor_ok st)) =
           file_queue st @
           map snd [e \<leftarrow> in_progress st.
                      owner_deleted (keys deleted_managers) (in_progress_owner st) (fst e)]"
    and "in_progress (snd (hotswap_endpoint_managers (Inr config_data) ctor_ok st)) =
           [e \<leftarrow> in_progress st.
              \<not> owner_deleted (keys deleted_managers) (in_progress_owner st) (fst e)]"
  by (simp_all add: hotswap_swaps [OF assms])

lemma running_state_fields:
  "\<not> stop_requested running_state"
  "in_progress running_state = [(''a.wav'', item_a)]"
  "in_progress_owner running_state = [(''a.wav'', manager_E1)]"
  "file_queue running_state = [item_b]"
  by (simp_all add: running_state_def init_def)

theorem hotswap_preserves_membership_witness:
  "fst (hotswap_endpoint_managers (Inr [(''E2'', [(''language'', ''fr-FR'')])]) (\<lambda>_ _. True)
          running_state) = Returns ()
   \<and> file_queue (snd (hotswap_endpoint_managers (Inr [(''E2'', [(''language'', ''fr-FR'')])])
                        (\<lambda>_ _. True) running_state)) = [item_b, item_a]
   \<and> in_progress (snd (hotswap_endpoint_managers (Inr [(''E2'', [(''language'', ''fr-FR'')])])
                         (\<lambda>_ _. True) running_state)) = []
   \<and> file_queue (snd (hotswap_endpoint_managers (Inr [(''E1'', [(''language'', ''en-us'')])])
                        (\<lambda>_ _. True) running_state)) = [item_b]
   \<and> in_progress (snd (hotswap_endpoint_managers (Inr [(''E1'', [(''language'', ''en-us'')])])
                         (\<lambda>_ _. True) running_state)) = [(''a.wav'', item_a)]"
proof -
  have d: "distinct (map fst (in_progress running_state))"
    and k: "keys (in_progress running_state) = keys (in_progress_owner running_state)"
    by (simp_all add: running_state_fields keys_def)
  have e1: "endpoint_name manager_E1 = ''E1''"
    by (simp add: manager_E1_def)
  note a = hotswap_swaps_fields [OF running_state_fields(1) plan_remove_E1 d k]
  note b = hotswap_swaps_fields [OF running_state_fields(1) plan_keep_E1 d k]
  from hotswap_preserves_membership [OF running_state_inv plan_remove_E1] running_state_fields(1)
  obtain st' where
    "hotswap_endpoint_managers (Inr [(''E2'', [(''language'', ''fr-FR'')])]) (\<lambda>_ _. True)
          running_state = (Returns (), st')"
    by blast
  then show ?thesis
    unfolding a b
    by (simp add: running_state_fields owner_deleted_def keys_def e1)
qed

section \<open>The accounting invariants hold in every reachable state\<close>

lemma accounting_inv_frame:
  assumes "accounting_inv st"
    and "file_queue st' = file_queue st" "file_queue_size st' = file_queue_size st"
    and "in_progress st' = in_progress st" "in_progress_owner st' = in_progress_owner st"
    and "batch_completion_evt st' \<longrightarrow> batch_completion_evt st \<or> stop_requested st'"
    and "stop_requested st \<longrightarrow> stop_requested st'"
  shows "accounting_inv st'"
  using assms unfolding accounting_inv_def by auto

lemma init_accounting_inv: "accounting_inv (init que path pid)"
  by (simp add: accounting_inv_def init_def keys_def)

lemma master_get_accounting_inv:
  "accounting_inv st \<Longrightarrow> master_get st = (out, st') \<Longrightarrow> accounting_inv st'"
  by (erule accounting_inv_frame) (auto simp: master_get_def split: list.splits)

lemma foldl_enqueue_item:
  "file_queue (foldl enqueue_item st items) = file_queue st @ items"
  "file_queue_size (foldl enqueue_item st items) = file_queue_size st + int (length items)"
  "in_progress (foldl enqueue_item st items) = in_progress st"
  "in_progress_owner (foldl enqueue_item st items) = in_progress_owner st"
  "batch_completion_evt (foldl enqueue_item st items) = batch_completion_evt st"
  "stop_requested (foldl enqueue_item st items) = stop_requested st"
  by (induction items arbitrary: st) (simp_all add: enqueue_item_def)

lemma start_batch_accounting_inv:
  assumes "accounting_inv st" "distinct (map filepath items)"
    and "start_batch request items st = (out, st')"
  shows "accounting_inv st'"
proof (cases "stop_requested st \<or> in_progress st \<noteq> [] \<or> file_queue_size st \<noteq> 0")
  case True
  with assms(3) have "file_queue st' = file_queue st" "file_queue_size st' = file_queue_size st"
    "in_progress st' = in_progress st" "in_progress_owner st' = in_progress_owner st"
    "batch_completion_evt st' \<longrightarrow> batch_completion_evt st \<or> stop_requested st'"
    "stop_requested st \<longrightarrow> stop_requested st'"
    by (auto simp: start_batch_def Let_def split: if_splits)
  with assms(1) show ?thesis by (rule accounting_inv_frame)
next
  case False
  with assms(1) have empty: "file_queue st = []" "in_progress st = []" "in_progress_owner st = []"
    by (auto simp: accounting_inv_def keys_def)
  from False assms(3) have
    "file_queue st' = file_queue st @ items"
    "file_queue_size st' = file_queue_size st + int (length items)"
    "in_progress st' = in_progress st" "in_progress_owner st' = in_progress_owner st"
    "\<not> batch_completion_evt st'"
    by (auto simp: start_batch_def Let_def foldl_enqueue_item)
  with False assms(2) empty show ?thesis
    by (simp add: accounting_inv_def keys_def)
qed

lemma set_update_subset: "set (AList.update k v al) \<subseteq> insert (k, v) (set al)"
  by (induction al) auto

lemma steal_work_accounting_inv:
  assumes inv: "accounting_inv st" and step: "steal_work manager st = (out, st')"
  shows "accounting_inv st'"
proof (cases "name manager \<in> old_managers st \<or> stop_requested st \<or> \<not> file_queue_size st > 0")
  case True
  with step have "st' = st"
    by (auto simp: steal_work_def split: if_splits)
  with inv show ?thesis by simp
next
  case False
  from inv have size: "file_queue_size st = int (length (file_queue st))"
    and ks: "keys (in_progress st) = keys (in_progress_owner st)"
    and dist: "distinct (map fst (in_progress st))"
    and filed: "\<forall>(k, w) \<in> set (in_progress st). filepath w = k"
    and distq: "distinct (map filepath (file_queue st))"
    and disj: "filepath ` set (file_queue st) \<inter> keys (in_progress st) = {}"
    unfolding accounting_inv_def by blast+
  from False size obtain work rest where q: "file_queue st = work # rest"
    by (cases "file_queue st") auto
  from False inv have noevt: "\<not> batch_completion_evt st"
    unfolding accounting_inv_def by auto
  let ?taken = "st\<lparr>file_queue := rest, file_queue_size := file_queue_size st - 1,
                  in_progress := AList.update (filepath work) work (in_progress st),
                  in_progress_owner := AList.update (filepath work) manager (in_progress_owner st)\<rparr>"
  let ?requeued = "st\<lparr>file_queue := rest @ [work], file_queue_size := file_queue_size st - 1 + 1,
                   file_queue_cond := file_queue_cond st @ [Notify]\<rparr>"
  let ?lost = "st\<lparr>file_queue := rest, file_queue_size := file_queue_size st - 1\<rparr>"
  from False step q have "st' = ?taken \<or> st' = ?requeued \<or> st' = ?lost"
    by (auto simp: steal_work_def Let_def split: option.splits if_splits)
  moreover have "accounting_inv ?taken"
  proof -
    have "\<forall>(k, w) \<in> set (AList.update (filepath work) work (in_progress st)). filepath w = k"
      using filed set_update_subset [of "filepath work" work "in_progress st"] by auto
    then show ?thesis
      using size ks dist distq disj q noevt False
      by (auto simp: accounting_inv_def keys_update distinct_update)
  qed
  moreover have "accounting_inv ?requeued"
    using size ks dist filed distq disj q noevt False
    by (auto simp: accounting_inv_def)
  moreover have "accounting_inv ?lost"
    using size ks dist filed distq disj q noevt False
    by (auto simp: accounting_inv_def)
  ultimately show ?thesis by blast
qed

lemma check_completion_accounting_inv:
  "accounting_inv st \<Longrightarrow> accounting_inv (check_completion st)"
  by (auto simp: accounting_inv_def check_completion_def)

lemma live_in_progress_no_event:
  assumes "accounting_inv st" "\<not> stop_requested st" "fp \<in> keys (in_progress st)"
  shows "\<not> batch_completion_evt st"
  using assms by (auto simp: accounting_inv_def keys_def)

lemma notify_work_success_accounting_inv:
  assumes inv: "accounting_inv st"
    and guard: "name manager \<in> old_managers st \<or> stop_requested st \<or> fp \<in> keys (in_progress st)"
    and step: "notify_work_success fp manager result st = (out, st')"
  shows "accounting_inv st'"
proof (cases "name manager \<in> old_managers st \<or> stop_requested st")
  case True
  with step have "st' = st\<lparr>cnt_work_success_cb := cnt_work_success_cb st + 1\<rparr>"
    by (simp add: notify_work_success_retired)
  with inv show ?thesis
    by (auto elim: accounting_inv_frame)
next
  case False
  with guard have fp: "fp \<in> keys (in_progress st)" by blast
  from inv have size: "file_queue_size st = int (length (file_queue st))"
    and ks: "keys (in_progress st) = keys (in_progress_owner st)"
    and dist: "distinct (map fst (in_progress st))"
    and filed: "\<forall>(k, w) \<in> set (in_progress st). filepath w = k"
    and distq: "distinct (map filepath (file_queue st))"
    and disj: "filepath ` set (file_queue st) \<inter> keys (in_progress st) = {}"
    unfolding accounting_inv_def by blast+
  from fp ks have fpo: "fp \<in> keys (in_progress_owner st)"
    by simp
  have noevt: "\<not> batch_completion_evt st"
    using inv False fp by (intro live_in_progress_no_event [of st fp]) auto
  from False fp fpo step have st': "st' = check_completion
              (st\<lparr>cnt_work_success_cb := cnt_work_success_cb st + 1,
                  in_progress := AList.delete fp (in_progress st),
                  in_progress_owner := AList.delete fp (in_progress_owner st),
                  work_results :=
                    AList.update fp (Some (merged_result fp result st)) (work_results st)\<rparr>)"
    by (simp add: notify_work_success_live)
  have "\<forall>(k, w) \<in> set (AList.delete fp (in_progress st)). filepath w = k"
    using filed by (auto simp: delete_as_filter)
  moreover have "filepath ` set (file_queue st) \<inter> keys (AList.delete fp (in_progress st)) = {}"
    using disj by (auto simp: keys_delete)
  ultimately show ?thesis
    unfolding st'
    by (intro check_completion_accounting_inv)
       (simp add: accounting_inv_def keys_delete distinct_delete size ks dist distq noevt)
qed

lemma notify_work_failure_accounting_inv:
  assumes inv: "accounting_inv st"
    and guard: "name manager \<in> old_managers st \<or> stop_requested st \<or> fp \<in> keys (in_progress st)"
    and step: "notify_work_failure max_retries fp manager result st = (out, st')"
  shows "accounting_inv st'"
proof (cases "name manager \<in> old_managers st \<or> stop_requested st")
  case True
  with step have "st' = st\<lparr>cnt_work_failure_cb := cnt_work_failure_cb st + 1\<rparr>"
    by (simp add: notify_work_failure_retired)
  with inv show ?thesis
    by (auto elim: accounting_inv_frame)
next
  case False
  with guard have fp: "fp \<in> keys (in_progress st)" by blast
  from inv have size: "file_queue_size st = int (length (file_queue st))"
    and ks: "keys (in_progress st) = keys (in_progress_owner st)"
    and dist: "distinct (map fst (in_progress st))"
    and filed: "\<forall>(k, w) \<in> set (in_progress st). filepath w = k"
    and distq: "distinct (map filepath (file_queue st))"
    and disj: "filepath ` set (file_queue st) \<inter> keys (in_progress st) = {}"
    unfolding accounting_inv_def by blast+
  from fp ks have fpo: "fp \<in> keys (in_progress_owner st)"
    by simp
  from fp obtain work where work: "map_of (in_progress st) fp = Some work"
    by (auto simp: in_keys_iff)
  then have "(fp, work) \<in> set (in_progress st)"
    by (rule map_of_SomeD)
  with filed have fw: "filepath work = fp"
    by auto
  have noevt: "\<not> batch_completion_evt st"
    using inv False fp by (intro live_in_progress_no_event [of st fp]) auto
  let ?retry = "can_retry result \<and> attempts (merged_result fp result st) - 1 < max_retries"
  from False work fpo step have st': "st' = check_completion
              (st\<lparr>cnt_work_failure_cb := cnt_work_failure_cb st + 1,
                  work_results :=
                    AList.update fp (Some (merged_result fp result st)) (work_results st),
                  file_queue := (if ?retry then file_queue st @ [work] else file_queue st),
                  file_queue_size :=
                    (if ?retry then file_queue_size st + 1 else file_queue_size st),
                  file_queue_cond :=
                    (if ?retry then file_queue_cond st @ [Notify] else file_queue_cond st),
                  in_progress := AList.delete fp (in_progress st),
                  in_progress_owner := AList.delete fp (in_progress_owner st)\<rparr>)"
    by (simp add: notify_work_failure_live)
  have a: "\<forall>(k, w) \<in> set (AList.delete fp (in_progress st)). filepath w = k"
    using filed by (auto simp: delete_as_filter)
  have b: "filepath ` set (file_queue st) \<inter> keys (AList.delete fp (in_progress st)) = {}"
    using disj by (auto simp: keys_delete)
  have c: "fp \<notin> filepath ` set (file_queue st)"
    using disj fp by auto
  show ?thesis
    unfolding st'
    using a b c
    by (intro check_completion_accounting_inv)
       (simp add: accounting_inv_def keys_delete distinct_delete size ks dist distq noevt fw)
qed

lemma cancel_running_batch_accounting_inv:
  assumes inv: "accounting_inv st" and step: "cancel_running_batch bid st = (out, st')"
  shows "accounting_inv st'"
proof (cases "on_batch_id st = bid")
  case False
  with step inv show ?thesis by (simp add: cancel_running_batch_def)
next
  case True
  from inv have "drain (file_queue st) (file_queue_size st) = (True, [], 0)"
    by (simp add: accounting_inv_def drain_exact)
  with True step show ?thesis
    by (auto simp: cancel_running_batch_def accounting_inv_def keys_def)
qed

lemma stop_notifier_fields:
  assumes "stop_notifier r st = Inr st1"
  shows "st1 = st \<or> st1 = st\<lparr>config_notifier := False\<rparr>"
  using assms by (auto simp: stop_notifier_def split: if_splits option.splits exn.splits)

lemma request_stop_accounting_inv:
  assumes inv: "accounting_inv st" and step: "request_stop pid r st = (out, st')"
  shows "accounting_inv st'"
proof (cases "pid \<noteq> creator_pid st")
  case True
  with step inv show ?thesis by (simp add: request_stop_def)
next
  case False
  show ?thesis
  proof (cases "stop_notifier r st")
    case (Inl e)
    with False step inv show ?thesis by (simp add: request_stop_def)
  next
    case (Inr st1)
    from stop_notifier_fields [OF Inr] inv
    have inv1: "accounting_inv st1" and q: "file_queue st1 = file_queue st"
      and n: "file_queue_size st1 = file_queue_size st"
      by (auto elim: accounting_inv_frame)
    from inv1 have "drain (file_queue st1) (file_queue_size st1) = (True, [], 0)"
      by (simp add: accounting_inv_def drain_exact)
    with False Inr step inv1 show ?thesis
      by (auto simp: request_stop_def Let_def accounting_inv_def)
  qed
qed

lemma hotswap_accounting_inv:
  assumes inv: "accounting_inv st"
    and step: "hotswap_endpoint_managers loaded ctor_ok st = (out, st')"
  shows "accounting_inv st'"
proof (cases loaded)
  case (Inl e)
  with step have "st' = st"
    by (auto simp: hotswap_endpoint_managers_def split: exn.splits)
  with inv show ?thesis by simp
next
  case (Inr config_data)
  show ?thesis
  proof (cases "stop_requested st")
    case True
    with Inr step inv show ?thesis by (simp add: hotswap_endpoint_managers_def)
  next
    case False
    show ?thesis
    proof (cases "hotswap_plan ctor_ok config_data st")
      case None
      with False Inr step have "st' = st\<lparr>endpoint_generation := endpoint_generation st + 1\<rparr>"
        by (simp add: hotswap_endpoint_managers_def Let_def)
      with inv show ?thesis by (auto elim: accounting_inv_frame)
    next
      case (Some plan)
      obtain deleted_managers new_em_objs where plan: "plan = (deleted_managers, new_em_objs)"
        by (cases plan)
      from inv have ks: "keys (in_progress st) = keys (in_progress_owner st)"
        and dist: "distinct (map fst (in_progress st))"
        unfolding accounting_inv_def by blast+
      note swap = hotswap_swaps [OF False Some [unfolded plan] dist ks]
      from step Inr swap have st': "st' = snd (hotswap_endpoint_managers (Inr config_data) ctor_ok st)"
        by simp
      show ?thesis
        by (rule hotswap_swaps_accounting_inv [OF inv False,
              where od = "owner_deleted (keys deleted_managers) (in_progress_owner st)"])
           (simp add: st' swap)
    qed
  qed
qed

theorem reachable_accounting_inv:
  "reachable max_retries st \<Longrightarrow> accounting_inv st"
proof (induction rule: reachable.induct)
  case (reach_init que path pid)
  show ?case by (rule init_accounting_inv)
next
  case (reach_master_get st out st')
  then show ?case by (blast intro: master_get_accounting_inv)
next
  case (reach_start_batch st items request out st')
  then show ?case by (blast intro: start_batch_accounting_inv)
next
  case (reach_steal_work st manager out st')
  then show ?case by (blast intro: steal_work_accounting_inv)
next
  case (reach_notify_work_success st manager fp result out st')
  then show ?case by (blast intro: notify_work_success_accounting_inv)
next
  case (reach_notify_work_failure st manager fp result out st')
  then show ?case by (blast intro: notify_work_failure_accounting_inv)
next
  case (reach_hotswap st loaded ctor_ok out st')
  then show ?case by (blast intro: hotswap_accounting_inv)
next
  case (reach_cancel st bid out st')
  then show ?case by (blast intro: cancel_running_batch_accounting_inv)
next
  case (reach_request_stop st pid notifier_stop out st')
  then show ?case by (blast intro: request_stop_accounting_inv)
qed

section \<open>The retry bound\<close>

lemma recorded_attempts_frame:
  "work_results st' = work_results st \<Longrightarrow> recorded_attempts st' = recorded_attempts st"
  by (simp add: recorded_attempts_def fun_eq_iff)

lemma retry_inv_shuffle:
  assumes "retry_inv M st" and "recorded_attempts st' = recorded_attempts st"
    and "filepath ` set (file_queue st') \<subseteq> filepath ` set (file_queue st) \<union> keys (in_progress st)"
    and "keys (in_progress st') \<subseteq> keys (in_progress st) \<union> filepath ` set (file_queue st)"
  shows "retry_inv M st'"
  using assms unfolding retry_inv_def by (auto simp: subset_iff image_iff)

lemma recorded_attempts_enqueue:
  "recorded_attempts (foldl enqueue_item st items) fp =
     (if fp \<in> filepath ` set items then 0 else recorded_attempts st fp)"
proof (induction items arbitrary: st)
  case Nil
  show ?case by simp
next
  case (Cons w items)
  have "recorded_attempts (enqueue_item st w) fp =
          (if fp = filepath w then 0 else recorded_attempts st fp)"
    by (simp add: recorded_attempts_def enqueue_item_def update_conv')
  with Cons show ?case by auto
qed

lemma recorded_attempts_merged:
  "attempts (merged_result fp r st) = attempts r + recorded_attempts st fp"
  by (simp add: merged_result_def recorded_attempts_def split: option.splits)


lemma retry_inv_frame:
  assumes "retry_inv M st" and "work_results st' = work_results st"
    and "file_queue st' = file_queue st" "in_progress st' = in_progress st"
  shows "retry_inv M st'"
  using assms(1) recorded_attempts_frame [OF assms(2)]
  by (rule retry_inv_shuffle) (simp_all add: assms)

lemma master_get_retry_inv:
  "retry_inv M st \<Longrightarrow> master_get st = (out, st') \<Longrightarrow> retry_inv M st'"
  by (erule retry_inv_frame) (auto simp: master_get_def split: list.splits)

lemma start_batch_retry_inv:
  assumes M: "0 \<le> M" and inv: "retry_inv M st" and acc: "accounting_inv st"
    and step: "start_batch request items st = (out, st')"
  shows "retry_inv M st'"
proof (cases "stop_requested st")
  case True
  with step inv show ?thesis by (simp add: start_batch_def)
next
  case False
  let ?st1 = "st\<lparr>work_results :=
                        (if singleton_run_summary_path st = None then [] else work_results st),
                      summarizer := True,
                      on_batch_id := batch_id request,
                      batch_completion_evt := False,
                      run_summary_thread_gate := True\<rparr>"
  have ra1: "recorded_attempts ?st1 fp = recorded_attempts st fp \<or> recorded_attempts ?st1 fp = 0"
    for fp
    by (simp add: recorded_attempts_def)
  have inv1: "retry_inv M ?st1"
    unfolding retry_inv_def
  proof (intro conjI ballI allI)
    fix w assume "w \<in> set (file_queue ?st1)"
    with inv ra1 [of "filepath w"] M show "recorded_attempts ?st1 (filepath w) \<le> M"
      by (auto simp: retry_inv_def)
  next
    fix k assume "k \<in> keys (in_progress ?st1)"
    with inv ra1 [of k] M show "recorded_attempts ?st1 k \<le> M"
      by (auto simp: retry_inv_def)
  next
    fix fp
    from inv ra1 [of fp] M show "recorded_attempts ?st1 fp \<le> M + 1"
      by (auto simp: retry_inv_def)
  qed
  show ?thesis
  proof (cases "in_progress st \<noteq> [] \<or> file_queue_size st \<noteq> 0")
    case True
    with False step have "st' = ?st1"
      by (auto simp: start_batch_def Let_def split: if_splits)
    with inv1 show ?thesis by simp
  next
    case quiet: False
    with acc have empty: "file_queue st = []" "in_progress st = []"
      by (auto simp: accounting_inv_def)
    let ?st2 = "foldl enqueue_item ?st1 items"
    from False quiet step
    have st': "st' = ?st2\<lparr>file_queue_cond := file_queue_cond ?st2 @ [NotifyAll]\<rparr>"
      by (auto simp: start_batch_def Let_def)
    have ra: "recorded_attempts st' fp =
                (if fp \<in> filepath ` set items then 0 else recorded_attempts ?st1 fp)" for fp
      unfolding st' recorded_attempts_enqueue [symmetric]
      by (simp add: recorded_attempts_def)
    have q: "file_queue st' = items" and ip: "in_progress st' = []"
      by (simp_all add: st' foldl_enqueue_item empty)
    show ?thesis
      unfolding retry_inv_def
    proof (intro conjI ballI allI)
      fix w assume "w \<in> set (file_queue st')"
      then show "recorded_attempts st' (filepath w) \<le> M"
        using M by (simp add: ra q)
    next
      fix k assume "k \<in> keys (in_progress st')"
      then show "recorded_attempts st' k \<le> M"
        by (simp add: ip keys_def)
    next
      fix fp
      from inv1 M show "recorded_attempts st' fp \<le> M + 1"
        by (auto simp: ra retry_inv_def)
    qed
  qed
qed

lemma steal_work_retry_inv:
  assumes inv: "retry_inv M st" and step: "steal_work manager st = (out, st')"
  shows "retry_inv M st'"
proof -
  have ra: "recorded_attempts st' = recorded_attempts st"
    using step
    by (intro recorded_attempts_frame)
       (auto simp: steal_work_def Let_def split: if_splits list.splits option.splits)
  have q: "filepath ` set (file_queue st') \<subseteq> filepath ` set (file_queue st) \<union> keys (in_progress st)"
    using step
    by (auto simp: steal_work_def Let_def split: if_splits list.splits option.splits)
  have ip: "keys (in_progress st') \<subseteq> keys (in_progress st) \<union> filepath ` set (file_queue st)"
    using step
    by (auto simp: steal_work_def Let_def keys_update split: if_splits list.splits option.splits)
  from inv ra q ip show ?thesis by (rule retry_inv_shuffle)
qed

lemma cancel_running_batch_retry_inv:
  assumes inv: "retry_inv M st" and acc: "accounting_inv st"
    and step: "cancel_running_batch bid st = (out, st')"
  shows "retry_inv M st'"
proof -
  from acc have d: "drain (file_queue st) (file_queue_size st) = (True, [], 0)"
    by (simp add: accounting_inv_def drain_exact)
  have "recorded_attempts st' = recorded_attempts st"
    using step d by (intro recorded_attempts_frame) (auto simp: cancel_running_batch_def split: if_splits)
  with inv show ?thesis
    by (rule retry_inv_shuffle)
       (use step d in \<open>auto simp: cancel_running_batch_def keys_def split: if_splits\<close>)
qed

lemma request_stop_retry_inv:
  assumes inv: "retry_inv M st" and acc: "accounting_inv st"
    and step: "request_stop pid r st = (out, st')"
  shows "retry_inv M st'"
proof (cases "pid \<noteq> creator_pid st")
  case True
  with step inv show ?thesis by (simp add: request_stop_def)
next
  case False
  show ?thesis
  proof (cases "stop_notifier r st")
    case (Inl e)
    with False step inv show ?thesis by (simp add: request_stop_def)
  next
    case (Inr st1)
    from stop_notifier_fields [OF Inr]
    have f: "file_queue st1 = file_queue st" "file_queue_size st1 = file_queue_size st"
      "work_results st1 = work_results st" "in_progress st1 = in_progress st"
      by auto
    from acc f have d: "drain (file_queue st1) (file_queue_size st1) = (True, [], 0)"
      by (simp add: accounting_inv_def drain_exact)
    from False Inr step d f have "work_results st' = work_results st"
      "file_queue st' = []" "in_progress st' = in_progress st"
      by (auto simp: request_stop_def Let_def)
    then show ?thesis
      using inv recorded_attempts_frame [of st' st]
      by (intro retry_inv_shuffle [OF inv]) auto
  qed
qed

lemma hotswap_retry_inv:
  assumes inv: "retry_inv M st" and acc: "accounting_inv st"
    and step: "hotswap_endpoint_managers loaded ctor_ok st = (out, st')"
  shows "retry_inv M st'"
proof (cases loaded)
  case (Inl e)
  with step have "st' = st"
    by (auto simp: hotswap_endpoint_managers_def split: exn.splits)
  with inv show ?thesis by simp
next
  case (Inr config_data)
  show ?thesis
  proof (cases "stop_requested st")
    case True
    with Inr step inv show ?thesis by (simp add: hotswap_endpoint_managers_def)
  next
    case False
    show ?thesis
    proof (cases "hotswap_plan ctor_ok config_data st")
      case None
      with False Inr step have "st' = st\<lparr>endpoint_generation := endpoint_generation st + 1\<rparr>"
        by (simp add: hotswap_endpoint_managers_def Let_def)
      with inv show ?thesis by (auto elim: retry_inv_frame)
    next
      case (Some plan)
      obtain deleted_managers new_em_objs where plan: "plan = (deleted_managers, new_em_objs)"
        by (cases plan)
      from acc have ks: "keys (in_progress st) = keys (in_progress_owner st)"
        and dist: "distinct (map fst (in_progress st))"
        and filed: "\<forall>(k, w) \<in> set (in_progress st). filepath w = k"
        unfolding accounting_inv_def by blast+
      note swap = hotswap_swaps [OF False Some [unfolded plan] dist ks]
      from step Inr swap have st': "st' = snd (hotswap_endpoint_managers (Inr config_data) ctor_ok st)"
        by simp
      have "recorded_attempts st' = recorded_attempts st"
        by (rule recorded_attempts_frame) (simp add: st' swap)
      moreover have "filepath ` set (file_queue st') \<subseteq>
                       filepath ` set (file_queue st) \<union> keys (in_progress st)"
        using filed by (auto simp: st' swap keys_def image_iff) force
      moreover have "keys (in_progress st') \<subseteq> keys (in_progress st) \<union> filepath ` set (file_queue st)"
        by (auto simp: st' swap keys_def)
      ultimately show ?thesis
        by (rule retry_inv_shuffle [OF inv])
    qed
  qed
qed

lemma recorded_attempts_check_completion:
  "recorded_attempts (check_completion st) = recorded_attempts st"
  by (rule recorded_attempts_frame) (simp add: check_completion_def)

lemma retry_inv_check_completion:
  "retry_inv M st \<Longrightarrow> retry_inv M (check_completion st)"
  by (erule retry_inv_frame) (simp_all add: check_completion_def)

lemma recorded_attempts_update:
  assumes "work_results st' = AList.update fp (Some r) (work_results st)"
  shows "recorded_attempts st' k = (if k = fp then attempts r else recorded_attempts st k)"
  by (simp add: recorded_attempts_def assms update_conv')

lemma notify_work_success_retry_inv:
  assumes inv: "retry_inv M st" and acc: "accounting_inv st"
    and guard: "name manager \<in> old_managers st \<or> stop_requested st \<or>
                  (fp \<in> keys (in_progress st) \<and> attempts result = 1)"
    and step: "notify_work_success fp manager result st = (out, st')"
  shows "retry_inv M st'"
proof (cases "name manager \<in> old_managers st \<or> stop_requested st")
  case True
  with step have "st' = st\<lparr>cnt_work_success_cb := cnt_work_success_cb st + 1\<rparr>"
    by (simp add: notify_work_success_retired)
  with inv show ?thesis
    by (auto elim: retry_inv_frame)
next
  case False
  with guard have fp: "fp \<in> keys (in_progress st)" and one: "attempts result = 1" by blast+
  from acc have ks: "keys (in_progress st) = keys (in_progress_owner st)"
    and disj: "filepath ` set (file_queue st) \<inter> keys (in_progress st) = {}"
    unfolding accounting_inv_def by blast+
  from fp ks have fpo: "fp \<in> keys (in_progress_owner st)"
    by simp
  define st1 where
    "st1 = st\<lparr>cnt_work_success_cb := cnt_work_success_cb st + 1,
                  in_progress := AList.delete fp (in_progress st),
                  in_progress_owner := AList.delete fp (in_progress_owner st),
                  work_results :=
                    AList.update fp (Some (merged_result fp result st)) (work_results st)\<rparr>"
  from False fp fpo step have st': "st' = check_completion st1"
    by (simp add: notify_work_success_live st1_def)
  have wr: "work_results st1 = AList.update fp (Some (merged_result fp result st)) (work_results st)"
    and q1: "file_queue st1 = file_queue st"
    and ip1: "in_progress st1 = AList.delete fp (in_progress st)"
    by (simp_all add: st1_def)
  have ra: "recorded_attempts st1 k =
              (if k = fp then 1 + recorded_attempts st fp else recorded_attempts st k)" for k
    by (simp add: recorded_attempts_update [OF wr] recorded_attempts_merged one)
  from inv fp have bound: "recorded_attempts st fp \<le> M"
    by (simp add: retry_inv_def)
  have "retry_inv M st1"
    unfolding retry_inv_def
  proof (intro conjI ballI allI)
    fix w assume "w \<in> set (file_queue st1)"
    with disj fp inv show "recorded_attempts st1 (filepath w) \<le> M"
      by (auto simp: ra q1 retry_inv_def)
  next
    fix k assume "k \<in> keys (in_progress st1)"
    with inv show "recorded_attempts st1 k \<le> M"
      by (auto simp: ra ip1 retry_inv_def keys_delete)
  next
    fix k
    from inv bound show "recorded_attempts st1 k \<le> M + 1"
      by (auto simp: ra retry_inv_def)
  qed
  then show ?thesis
    unfolding st' by (rule retry_inv_check_completion)
qed

lemma notify_work_failure_retry_inv:
  assumes inv: "retry_inv M st" and acc: "accounting_inv st"
    and guard: "name manager \<in> old_managers st \<or> stop_requested st \<or>
                  (fp \<in> keys (in_progress st) \<and> attempts result = 1)"
    and step: "notify_work_failure M fp manager result st = (out, st')"
  shows "retry_inv M st'"
proof (cases "name manager \<in> old_managers st \<or> stop_requested st")
  case True
  with step have "st' = st\<lparr>cnt_work_failure_cb := cnt_work_failure_cb st + 1\<rparr>"
    by (simp add: notify_work_failure_retired)
  with inv show ?thesis
    by (auto elim: retry_inv_frame)
next
  case False
  with guard have fp: "fp \<in> keys (in_progress st)" and one: "attempts result = 1" by blast+
  from acc have ks: "keys (in_progress st) = keys (in_progress_owner st)"
    and filed: "\<forall>(k, w) \<in> set (in_progress st). filepath w = k"
    and disj: "filepath ` set (file_queue st) \<inter> keys (in_progress st) = {}"
    unfolding accounting_inv_def by blast+
  from fp ks have fpo: "fp \<in> keys (in_progress_owner st)"
    by simp
  from fp obtain work where work: "map_of (in_progress st) fp = Some work"
    by (auto simp: in_keys_iff)
  then have "(fp, work) \<in> set (in_progress st)"
    by (rule map_of_SomeD)
  with filed have fw: "filepath work = fp"
    by auto
  define retry where
    "retry \<longleftrightarrow> can_retry result \<and> attempts (merged_result fp result st) - 1 < M"
  define st1 where
    "st1 = st\<lparr>cnt_work_failure_cb := cnt_work_failure_cb st + 1,
                  work_results :=
                    AList.update fp (Some (merged_result fp result st)) (work_results st),
                  file_queue := (if retry then file_queue st @ [work] else file_queue st),
                  file_queue_size :=
                    (if retry then file_queue_size st + 1 else file_queue_size st),
                  file_queue_cond :=
                    (if retry then file_queue_cond st @ [Notify] else file_queue_cond st),
                  in_progress := AList.delete fp (in_progress st),
                  in_progress_owner := AList.delete fp (in_progress_owner st)\<rparr>"
  from False work fpo step have st': "st' = check_completion st1"
    by (simp add: notify_work_failure_live st1_def retry_def)
  have wr: "work_results st1 = AList.update fp (Some (merged_result fp result st)) (work_results st)"
    and q1: "file_queue st1 = (if retry then file_queue st @ [work] else file_queue st)"
    and ip1: "in_progress st1 = AList.delete fp (in_progress st)"
    by (simp_all add: st1_def)
  have ra: "recorded_attempts st1 k =
              (if k = fp then 1 + recorded_attempts st fp else recorded_attempts st k)" for k
    by (simp add: recorded_attempts_update [OF wr] recorded_attempts_merged one)
  have retry: "retry \<Longrightarrow> 1 + recorded_attempts st fp \<le> M"
    by (simp add: retry_def recorded_attempts_merged one)
  from inv fp have bound: "recorded_attempts st fp \<le> M"
    by (simp add: retry_inv_def)
  have "retry_inv M st1"
    unfolding retry_inv_def
  proof (intro conjI ballI allI)
    fix w assume w: "w \<in> set (file_queue st1)"
    show "recorded_attempts st1 (filepath w) \<le> M"
    proof (cases "w \<in> set (file_queue st)")
      case True
      with disj fp inv show ?thesis
        by (auto simp: ra retry_inv_def)
    next
      case False
      with w have "retry \<and> w = work"
        by (auto simp: q1 split: if_splits)
      with retry fw show ?thesis
        by (simp add: ra)
    qed
  next
    fix k assume "k \<in> keys (in_progress st1)"
    with inv show "recorded_attempts st1 k \<le> M"
      by (auto simp: ra ip1 retry_inv_def keys_delete)
  next
    fix k
    from inv bound show "recorded_attempts st1 k \<le> M + 1"
      by (auto simp: ra retry_inv_def)
  qed
  then show ?thesis
    unfolding st' by (rule retry_inv_check_completion)
qed

lemma init_retry_inv: "0 \<le> M \<Longrightarrow> retry_inv M (init que path pid)"
  by (simp add: retry_inv_def init_def keys_def recorded_attempts_def)

lemma reachable_retry_inv:
  assumes "0 \<le> M" and "reachable M st"
  shows "retry_inv M st"
  using assms(2)
proof (induction rule: reachable.induct)
  case (reach_init que path pid)
  show ?case by (rule init_retry_inv [OF assms(1)])
next
  case (reach_master_get st out st')
  then show ?case by (blast intro: master_get_retry_inv)
next
  case (reach_start_batch st items request out st')
  then show ?case
    by (blast intro: start_batch_retry_inv [OF assms(1)] reachable_accounting_inv)
next
  case (reach_steal_work st manager out st')
  then show ?case by (blast intro: steal_work_retry_inv)
next
  case (reach_notify_work_success st manager fp result out st')
  then show ?case
    by (blast intro: notify_work_success_retry_inv reachable_accounting_inv)
next
  case (reach_notify_work_failure st manager fp result out st')
  then show ?case
    by (blast intro: notify_work_failure_retry_inv reachable_accounting_inv)
next
  case (reach_hotswap st loaded ctor_ok out st')
  then show ?case by (blast intro: hotswap_retry_inv reachable_accounting_inv)
next
  case (reach_cancel st bid out st')
  then show ?case by (blast intro: cancel_running_batch_retry_inv reachable_accounting_inv)
next
  case (reach_request_stop st pid notifier_stop out st')
  then show ?case by (blast intro: request_stop_retry_inv reachable_accounting_inv)
qed

text \<open>The example run, step by step.\<close>

lemma first_steal:
  "steal_work manager_E1 (snd (start_batch batch_7 [item_b] (init [] None 1))) =
     (Returns (Work item_b),
      (init [] None 1)\<lparr>on_batch_id := 7, run_summary_thread_gate := True,
         in_progress := [(''b.wav'', item_b)], in_progress_owner := [(''b.wav'', manager_E1)],
         work_results := [(''b.wav'', None)], file_queue_cond := [NotifyAll],
         summarizer := True\<rparr>)"
  by (simp add: start_batch_def steal_work_def Let_def init_def enqueue_item_def batch_7_def
      item_b_def manager_E1_def)

lemma after_first_failure_eval:
  "after_first_failure =
     (init [] None 1)\<lparr>on_batch_id := 7, run_summary_thread_gate := True,
        file_queue := [item_b], file_queue_size := 1,
        work_results := [(''b.wav'', Some \<lparr>attempts = 1, can_retry = True\<rparr>)],
        file_queue_cond := [NotifyAll, Notify], summarizer := True, cnt_work_failure_cb := 1\<rparr>"
  unfolding after_first_failure_def first_steal
  by (simp add: notify_work_failure_def Let_def init_def merge_results_def merged_result_def
      check_completion_def keys_def manager_E1_def)

lemma second_steal:
  "steal_work manager_E1 after_first_failure =
     (Returns (Work item_b),
      (init [] None 1)\<lparr>on_batch_id := 7, run_summary_thread_gate := True,
        in_progress := [(''b.wav'', item_b)], in_progress_owner := [(''b.wav'', manager_E1)],
        work_results := [(''b.wav'', Some \<lparr>attempts = 1, can_retry = True\<rparr>)],
        file_queue_cond := [NotifyAll, Notify], summarizer := True, cnt_work_failure_cb := 1\<rparr>)"
  unfolding after_first_failure_eval
  by (simp add: steal_work_def Let_def init_def item_b_def manager_E1_def)

lemma after_second_failure_eval:
  "after_second_failure =
     (init [] None 1)\<lparr>on_batch_id := 7, run_summary_thread_gate := True,
        work_results := [(''b.wav'', Some \<lparr>attempts = 2, can_retry = True\<rparr>)],
        batch_completion_evt := True,
        file_queue_cond := [NotifyAll, Notify], summarizer := True, cnt_work_failure_cb := 2\<rparr>"
  unfolding after_second_failure_def second_steal
  by (simp add: notify_work_failure_def Let_def init_def merge_results_def merged_result_def
      check_completion_def keys_def manager_E1_def)

lemma after_second_failure_reachable: "reachable 1 after_second_failure"
proof -
  let ?r = "\<lparr>attempts = 1, can_retry = True\<rparr>"
  let ?s1 = "snd (start_batch batch_7 [item_b] (init [] None 1))"
  let ?s2 = "snd (steal_work manager_E1 ?s1)"
  let ?s4 = "snd (steal_work manager_E1 after_first_failure)"
  have "reachable 1 (init [] None 1)"
    by (rule reach_init)
  then have "reachable 1 ?s1"
    by (rule reach_start_batch [where items = "[item_b]" and request = batch_7
          and out = "fst (start_batch batch_7 [item_b] (init [] None 1))"]) simp_all
  then have r2: "reachable 1 ?s2"
    by (rule reach_steal_work [where manager = manager_E1
          and out = "fst (steal_work manager_E1 ?s1)"]) simp
  have "reachable 1 after_first_failure"
    unfolding after_first_failure_def
    by (rule reach_notify_work_failure [OF r2, where manager = manager_E1 and fp = "''b.wav''"
          and result = ?r and out = "fst (notify_work_failure 1 ''b.wav'' manager_E1 ?r ?s2)"])
       (simp_all add: first_steal keys_def)
  then have r4: "reachable 1 ?s4"
    by (rule reach_steal_work [where manager = manager_E1
          and out = "fst (steal_work manager_E1 after_first_failure)"]) simp
  show ?thesis
    unfolding after_second_failure_def
    by (rule reach_notify_work_failure [OF r4, where manager = manager_E1 and fp = "''b.wav''"
          and result = ?r and out = "fst (notify_work_failure 1 ''b.wav'' manager_E1 ?r ?s4)"])
       (simp_all add: second_steal keys_def)
qed

text \<open>
  Claim C2. For a manager that is neither retired nor stopped, \<open>notify_work_failure\<close>
  stores the merged result and puts the in-progress request of the filepath back on the
  queue if and only if the incoming result has \<open>can_retry\<close> true and the merged attempt
  count minus 1 is less than \<open>ORCHESTRATOR_SCOPE_MAX_RETRIES\<close>. Consequently, with a
  retry budget that is not negative, in every reachable state the attempts recorded for
  any filepath are at most the budget plus 1. Reachable means: reached from the initial
  state by the orchestrator's methods, where no batch has two items with the same
  filepath and every reported result is for a filepath in progress and carries
  \<open>attempts = 1\<close>.
\<close>

theorem retry_bound:
  "(name manager \<notin> old_managers st \<and> \<not> stop_requested st \<and>
    map_of (in_progress st) fp = Some work \<and> fp \<in> keys (in_progress_owner st) \<longrightarrow>
      fst (notify_work_failure M fp manager result st) = Returns () \<and>
      map_of (work_results (snd (notify_work_failure M fp manager result st))) fp =
        Some (Some (merged_result fp result st)) \<and>
      file_queue (snd (notify_work_failure M fp manager result st)) =
        (if can_retry result \<and> attempts (merged_result fp result st) - 1 < M
         then file_queue st @ [work] else file_queue st))
   \<and> (0 \<le> M \<and> reachable M st' \<longrightarrow>
        (\<forall>fp' r. map_of (work_results st') fp' = Some (Some r) \<longrightarrow> attempts r \<le> M + 1))"
proof (intro conjI impI allI)
  assume live: "name manager \<notin> old_managers st \<and> \<not> stop_requested st \<and>
    map_of (in_progress st) fp = Some work \<and> fp \<in> keys (in_progress_owner st)"
  then have eq: "notify_work_failure M fp manager result st =
           (Returns (),
            check_completion
              (st\<lparr>cnt_work_failure_cb := cnt_work_failure_cb st + 1,
                  work_results :=
                    AList.update fp (Some (merged_result fp result st)) (work_results st),
                  file_queue :=
                    (if can_retry result \<and> attempts (merged_result fp result st) - 1 < M
                     then file_queue st @ [work] else file_queue st),
                  file_queue_size :=
                    (if can_retry result \<and> attempts (merged_result fp result st) - 1 < M
                     then file_queue_size st + 1 else file_queue_size st),
                  file_queue_cond :=
                    (if can_retry result \<and> attempts (merged_result fp result st) - 1 < M
                     then file_queue_cond st @ [Notify] else file_queue_cond st),
                  in_progress := AList.delete fp (in_progress st),
                  in_progress_owner := AList.delete fp (in_progress_owner st)\<rparr>))"
    by (intro notify_work_failure_live) simp_all
  show "fst (notify_work_failure M fp manager result st) = Returns ()"
    by (simp add: eq)
  show "map_of (work_results (snd (notify_work_failure M fp manager result st))) fp =
        Some (Some (merged_result fp result st))"
    by (simp add: eq work_results_check_completion update_conv')
  show "file_queue (snd (notify_work_failure M fp manager result st)) =
        (if can_retry result \<and> attempts (merged_result fp result st) - 1 < M
         then file_queue st @ [work] else file_queue st)"
    by (simp add: eq check_completion_def)
next
  fix fp' r
  assume "0 \<le> M \<and> reachable M st'" and stored: "map_of (work_results st') fp' = Some (Some r)"
  then have "retry_inv M st'"
    by (simp add: reachable_retry_inv)
  then have "recorded_attempts st' fp' \<le> M + 1"
    by (simp add: retry_inv_def)
  with stored show "attempts r \<le> M + 1"
    by (simp add: recorded_attempts_def)
qed

theorem retry_bound_witness:
  "reachable 1 after_second_failure
   \<and> map_of (work_results after_second_failure) ''b.wav'' =
       Some (Some \<lparr>attempts = 2, can_retry = True\<rparr>)
   \<and> attempts \<lparr>attempts = 2, can_retry = True\<rparr> \<le> 1 + 1
   \<and> file_queue after_first_failure = [item_b]
   \<and> file_queue after_second_failure = []"
proof -
  have stored: "map_of (work_results after_second_failure) ''b.wav'' =
       Some (Some \<lparr>attempts = 2, can_retry = True\<rparr>)"
    by (simp add: after_second_failure_eval)
  have "(0::int) \<le> 1 \<and> reachable 1 after_second_failure"
    by (simp add: after_second_failure_reachable)
  with retry_bound [where M = 1 and st' = after_second_failure] stored
  have "attempts \<lparr>attempts = 2, can_retry = True\<rparr> \<le> 1 + 1"
    by blast
  moreover have "file_queue after_first_failure = [item_b]"
    by (simp add: after_first_failure_eval)
  moreover have "file_queue after_second_failure = []"
    by (simp add: after_second_failure_eval init_def)
  ultimately show ?thesis
    using stored after_second_failure_reachable by blast
qed

section \<open>Completion event after a callback\<close>

text \<open>
  After a callback from a manager that is neither retired nor stopped, for a filepath in
  progress, the completion event is set exactly when the size counter is 0 and
  \<open>in_progress\<close> is empty. This needs the accounting invariant: the callbacks set the
  event and never clear it.
\<close>

lemma check_completion_event:
  "\<not> batch_completion_evt st \<Longrightarrow>
   batch_completion_evt (check_completion st) \<longleftrightarrow>
     file_queue_size (check_completion st) = 0 \<and> in_progress (check_completion st) = []"
  by (simp add: check_completion_def)

lemma completion_event_after_callback:
  assumes inv: "accounting_inv st"
    and live: "name manager \<notin> old_managers st" "\<not> stop_requested st"
    and fp: "fp \<in> keys (in_progress st)"
  shows "(\<exists>st'. notify_work_success fp manager result st = (Returns (), st') \<and>
            (batch_completion_evt st' \<longleftrightarrow> file_queue_size st' = 0 \<and> in_progress st' = []))
       \<and> (\<exists>st'. notify_work_failure max_retries fp manager result st = (Returns (), st') \<and>
            (batch_completion_evt st' \<longleftrightarrow> file_queue_size st' = 0 \<and> in_progress st' = []))"
proof -
  from inv fp have fpo: "fp \<in> keys (in_progress_owner st)"
    by (simp add: accounting_inv_def)
  from fp obtain work where work: "map_of (in_progress st) fp = Some work"
    by (auto simp: in_keys_iff)
  have noevt: "\<not> batch_completion_evt st"
    using inv live(2) fp by (rule live_in_progress_no_event)
  define s1 where "s1 = snd (notify_work_success fp manager result st)"
  define s2 where "s2 = snd (notify_work_failure max_retries fp manager result st)"
  have r1: "notify_work_success fp manager result st = (Returns (), s1)"
    by (simp add: s1_def notify_work_success_live [OF live fp fpo])
  have r2: "notify_work_failure max_retries fp manager result st = (Returns (), s2)"
    by (simp add: s2_def notify_work_failure_live [OF live work fpo])
  have "batch_completion_evt s1 \<longleftrightarrow> file_queue_size s1 = 0 \<and> in_progress s1 = []"
    unfolding s1_def notify_work_success_live [OF live fp fpo] snd_conv
    by (rule check_completion_event) (simp add: noevt)
  moreover
  have "batch_completion_evt s2 \<longleftrightarrow> file_queue_size s2 = 0 \<and> in_progress s2 = []"
    unfolding s2_def notify_work_failure_live [OF live work fpo] snd_conv
    by (rule check_completion_event) (simp add: noevt)
  ultimately show ?thesis
    using r1 r2 by blast
qed

end
